theory Spec2Isabelle
  imports Main "HOL-Library.Word" "HOL-Library.Multiset"
begin

section \<open>Tracks and the track queue (queue.ts)\<close>

text \<open>
  A JavaScript \<open>number\<close> that holds a millisecond time stamp, a list index or a
  process id is modelled as an integer or a natural number; optional fields are
  options. A string is a \<open>string\<close>.
\<close>

datatype source_tag = youtube | soundcloud

record requester =
  requester_id :: string
  displayName :: string
  avatar :: "string option"

record Track =
  id_t :: string
  url :: string
  title :: string
  thumbnail :: "string option"
  duration :: "int option"
  startedAt :: "int option"
  source :: source_tag
  requestedBy :: requester

text \<open>\<open>Array.prototype.findIndex\<close>: the first index whose element satisfies the
  predicate; the source's \<open>-1\<close> is \<open>None\<close>.\<close>

fun findIndex :: "('a \<Rightarrow> bool) \<Rightarrow> 'a list \<Rightarrow> nat option" where
  "findIndex P [] = None"
| "findIndex P (x # xs) = (if P x then Some 0 else map_option Suc (findIndex P xs))"

text \<open>\<open>splice(i, 1)\<close> and \<open>splice(i, 0, x)\<close>. A start index beyond the length is
  clamped to the length by \<open>splice\<close>, as \<open>take\<close> and \<open>drop\<close> do.\<close>

definition splice_out :: "nat \<Rightarrow> 'a list \<Rightarrow> 'a list" where
  "splice_out i xs = take i xs @ drop (Suc i) xs"

definition splice_in :: "nat \<Rightarrow> 'a \<Rightarrow> 'a list \<Rightarrow> 'a list" where
  "splice_in i x xs = take i xs @ x # drop i xs"

text \<open>\<open>enqueue\<close>: the id comes from \<open>randomUUID()\<close>, an input of the model; the
  payload is a track whose id field is ignored (\<open>Omit<Track, 'id'>\<close>).\<close>

definition enqueue :: "string \<Rightarrow> Track \<Rightarrow> Track list \<Rightarrow> Track \<times> Track list" where
  "enqueue uuid payload q = (let track = payload\<lparr>id_t := uuid\<rparr> in (track, q @ [track]))"

definition dequeue :: "Track list \<Rightarrow> Track option \<times> Track list" where
  "dequeue q = (case q of [] \<Rightarrow> (None, []) | t # rest \<Rightarrow> (Some t, rest))"

definition peek :: "Track list \<Rightarrow> Track option" where
  "peek q = (case q of [] \<Rightarrow> None | t # _ \<Rightarrow> Some t)"

definition snapshot :: "Track list \<Rightarrow> Track list" where
  "snapshot q = q"

definition remove_track :: "string \<Rightarrow> Track list \<Rightarrow> bool \<times> Track list" where
  "remove_track trackId q =
     (case findIndex (\<lambda>t. id_t t = trackId) q of
        None \<Rightarrow> (False, q)
      | Some index \<Rightarrow> (True, splice_out index q))"

definition move :: "string \<Rightarrow> int \<Rightarrow> Track list \<Rightarrow> bool \<times> Track list" where
  "move trackId newIndex q =
     (case findIndex (\<lambda>t. id_t t = trackId) q of
        None \<Rightarrow> (False, q)
      | Some currentIndex \<Rightarrow>
          (let clampedIndex = max 0 (min newIndex (int (length q) - 1));
               track = q ! currentIndex;
               rest = splice_out currentIndex q
           in (True, splice_in (nat clampedIndex) track rest)))"

section \<open>The broadcast engine (player.ts)\<close>

subsection \<open>Buffers, listener sinks and the engine's fields\<close>

type_synonym buffer = "8 word list"

text \<open>\<open>Buffer.from('fffbe400' followed by 64 zero digits, 'hex')\<close>: 36 bytes.\<close>

definition SILENCE_FRAME :: buffer where
  "SILENCE_FRAME = [0xFF, 0xFB, 0xE4, 0x00] @ replicate 32 0"

text \<open>\<open>Buffer.concat(Array(100).fill(SILENCE_FRAME))\<close>.\<close>

definition SILENCE_FLUSH :: buffer where
  "SILENCE_FLUSH = concat (replicate 100 SILENCE_FRAME)"

text \<open>A listener sink (\<open>PassThrough\<close>): its identity, its \<open>destroyed\<close> flag and the
  chunks written to it so far, oldest first.\<close>

record tap =
  tap_no :: nat
  destroyed :: bool
  written :: "buffer list"

datatype signal = SIGSTOP | SIGCONT

text \<open>The callbacks the engine hands to \<open>setTimeout\<close>: the 150 ms callback of
  \<open>skipCurrent\<close>, a deferred \<open>playNext\<close>, and the 30 s safety timeout of the
  encoder pipeline with the given number.\<close>

datatype callback = SkipDone | PlayNextCb | SafetyTimeout nat

text \<open>How \<open>createAudioStream\<close> settles: an input of the model.\<close>

datatype fetch_result = FetchOk | FetchFailed

text \<open>What the closures of one \<open>playTrack\<close> call capture: the track and the
  local \<open>hasStarted\<close>.\<close>

record pipeline =
  p_track :: Track
  hasStarted :: bool

text \<open>
  The fields of \<open>StreamService\<close>, the array of the \<open>TrackQueue\<close> it shares with
  the HTTP handlers, and the run-time context of the single-threaded event loop:
  the encoder pipelines built so far, the \<open>playNext\<close> calls suspended in
  \<open>await createAudioStream\<close> (with whether \<open>ensurePlaying\<close> awaits them), the
  pending timers (delay in ms, callback), the \<open>process.kill\<close> calls made, the
  pipelines killed through \<open>stopCurrent\<close>, and the ids \<open>randomUUID\<close> has
  returned. \<open>stopCurrent\<close> holds the number of the pipeline its closure stops.
\<close>

record engine =
  queue :: "Track list"
  taps :: "tap list"
  playing :: bool
  starting :: bool
  paused :: bool
  pausedAt :: "int option"
  totalPausedDuration :: int
  stopCurrent :: "nat option"
  currentFfmpegPid :: "nat option"
  skipping :: bool
  currentTrack :: "Track option"
  lastPlayedTrack :: "Track option"
  currentYoutubeThumbnail :: "string option"
  currentSoundcloudThumbnail :: "string option"
  pipelines :: "pipeline list"
  fetching :: "(Track \<times> bool) list"
  timers :: "(nat \<times> callback) list"
  signals :: "(nat \<times> signal) list"
  stopped :: "nat list"
  issued :: "string list"

record StreamState =
  current :: "Track option"
  state_queue :: "Track list"
  listeners :: nat
  state_paused :: bool

definition initial_engine :: engine where
  "initial_engine = \<lparr>queue = [], taps = [], playing = False, starting = False,
     paused = False, pausedAt = None, totalPausedDuration = 0, stopCurrent = None,
     currentFfmpegPid = None, skipping = False, currentTrack = None,
     lastPlayedTrack = None, currentYoutubeThumbnail = None,
     currentSoundcloudThumbnail = None, pipelines = [], fetching = [], timers = [],
     signals = [], stopped = [], issued = []\<rparr>"

subsection \<open>Fan-out\<close>

definition tap_write :: "buffer \<Rightarrow> tap \<Rightarrow> tap" where
  "tap_write chunk t = t\<lparr>written := written t @ [chunk]\<rparr>"

text \<open>The loop \<open>for (const tap of this.taps) if (!tap.destroyed) tap.write(data)\<close>.\<close>

definition write_taps :: "buffer \<Rightarrow> tap list \<Rightarrow> tap list" where
  "write_taps data ts = map (\<lambda>t. if \<not> destroyed t then tap_write data t else t) ts"

definition flushWithSilence :: "engine \<Rightarrow> engine" where
  "flushWithSilence s = s\<lparr>taps := write_taps SILENCE_FLUSH (taps s)\<rparr>"

definition broadcastChunk :: "buffer \<Rightarrow> engine \<Rightarrow> engine" where
  "broadcastChunk chunk s =
     (let dataToSend = (if paused s then SILENCE_FRAME else chunk)
      in s\<lparr>taps := write_taps dataToSend (taps s)\<rparr>)"

definition sendSilence :: "engine \<Rightarrow> engine" where
  "sendSilence s = (if taps s \<noteq> [] then broadcastChunk SILENCE_FRAME s else s)"

text \<open>The 50 ms interval callback of \<open>startSilenceBroadcast\<close>.\<close>

definition silence_tick :: "engine \<Rightarrow> engine" where
  "silence_tick s =
     (if \<not> playing s \<and> taps s \<noteq> [] then broadcastChunk SILENCE_FRAME s else s)"

definition attachClient :: "nat \<Rightarrow> engine \<Rightarrow> engine" where
  "attachClient n s =
     s\<lparr>taps := taps s @ [\<lparr>tap_no = n, destroyed = False, written = [SILENCE_FRAME]\<rparr>]\<rparr>"

text \<open>The \<open>close\<close> callback of the response: \<open>tap.destroy(); taps.delete(tap)\<close>.\<close>

definition client_close :: "nat \<Rightarrow> engine \<Rightarrow> engine" where
  "client_close n s = s\<lparr>taps := filter (\<lambda>t. tap_no t \<noteq> n) (taps s)\<rparr>"

subsection \<open>State snapshot\<close>

text \<open>\<open>if (track?.startedAt)\<close> is a truthiness test: an absent stamp and the stamp
  \<open>0\<close> both fail it.\<close>

definition getState :: "engine \<Rightarrow> StreamState" where
  "getState s =
     (let track = (case currentTrack s of Some t \<Rightarrow> Some t | None \<Rightarrow> lastPlayedTrack s);
          adjustedTrack =
            (case track of
               None \<Rightarrow> None
             | Some t \<Rightarrow>
                 (case startedAt t of
                    None \<Rightarrow> Some t
                  | Some st \<Rightarrow>
                      if st \<noteq> 0 then
                        (let currentPauseDuration = (if paused s then 0 else 0);
                             adjustedStartedAt = st + totalPausedDuration s + currentPauseDuration
                         in Some (t\<lparr>startedAt := Some adjustedStartedAt\<rparr>))
                      else Some t))
      in \<lparr>current = adjustedTrack, state_queue = snapshot (queue s),
          listeners = length (taps s), state_paused = paused s\<rparr>)"

subsection \<open>Pause and resume\<close>

text \<open>\<open>process.kill(pid, sig)\<close> inside \<open>try\<close>: the call is recorded; a failure of
  the call is caught and logged by the source and changes nothing else.\<close>

definition process_kill :: "nat \<Rightarrow> signal \<Rightarrow> engine \<Rightarrow> engine" where
  "process_kill pid sg s = s\<lparr>signals := signals s @ [(pid, sg)]\<rparr>"

text \<open>\<open>if (this.currentFfmpegPid) process.kill(...)\<close>: a truthiness test again.\<close>

definition signal_encoder :: "signal \<Rightarrow> engine \<Rightarrow> engine" where
  "signal_encoder sg s =
     (case currentFfmpegPid s of
        None \<Rightarrow> s
      | Some pid \<Rightarrow> if pid \<noteq> 0 then process_kill pid sg s else s)"

text \<open>\<open>now\<close> is the value of \<open>Date.now()\<close>.\<close>

definition setPaused :: "bool \<Rightarrow> int \<Rightarrow> engine \<Rightarrow> engine" where
  "setPaused p now s =
     (if p \<and> \<not> paused s then
        flushWithSilence (signal_encoder SIGSTOP (s\<lparr>pausedAt := Some now, paused := True\<rparr>))
      else if \<not> p \<and> paused s \<and> (case pausedAt s of None \<Rightarrow> False | Some pa \<Rightarrow> pa \<noteq> 0) then
        signal_encoder SIGCONT
          (s\<lparr>totalPausedDuration := totalPausedDuration s + (now - the (pausedAt s)),
             pausedAt := None, paused := False\<rparr>)
      else s\<lparr>paused := p\<rparr>)"

text \<open>
  The same handler statement by statement: the states after each statement of the
  branch taken, in program order. A call of \<open>process.kill\<close> and the loop of
  \<open>flushWithSilence\<close> each count as one statement.
\<close>

definition setPaused_trace :: "bool \<Rightarrow> int \<Rightarrow> engine \<Rightarrow> engine list" where
  "setPaused_trace p now s =
     (if p \<and> \<not> paused s then
        (let s1 = s\<lparr>pausedAt := Some now\<rparr>;
             s2 = s1\<lparr>paused := True\<rparr>;
             s3 = signal_encoder SIGSTOP s2;
             s4 = flushWithSilence s3
         in [s1, s2, s3, s4])
      else if \<not> p \<and> paused s \<and> (case pausedAt s of None \<Rightarrow> False | Some pa \<Rightarrow> pa \<noteq> 0) then
        (let s1 = s\<lparr>totalPausedDuration := totalPausedDuration s + (now - the (pausedAt s))\<rparr>;
             s2 = s1\<lparr>pausedAt := None\<rparr>;
             s3 = s2\<lparr>paused := False\<rparr>;
             s4 = signal_encoder SIGCONT s3
         in [s1, s2, s3, s4])
      else [s\<lparr>paused := p\<rparr>])"

definition isPaused :: "engine \<Rightarrow> bool" where
  "isPaused s = paused s"

subsection \<open>Starting, advancing and skipping\<close>

text \<open>
  An \<open>async\<close> function runs synchronously up to its first \<open>await\<close> of real I/O,
  which here is \<open>createAudioStream\<close> only: a call either returns, or is suspended
  awaiting the audio source of the track it dequeued. Continuations of promises
  that are already settled run before any other event, so they belong to the same
  step.
\<close>

datatype call_result = Returned engine | AwaitFetch Track engine

definition set_timeout :: "nat \<Rightarrow> callback \<Rightarrow> engine \<Rightarrow> engine" where
  "set_timeout ms cb s = s\<lparr>timers := timers s @ [(ms, cb)]\<rparr>"

text \<open>The \<open>catch\<close> block of \<open>playNext\<close>.\<close>

definition playNext_catch :: "engine \<Rightarrow> engine" where
  "playNext_catch s =
     set_timeout 1000 PlayNextCb
       (s\<lparr>currentTrack := None, lastPlayedTrack := None, playing := False\<rparr>)"

text \<open>\<open>playNext\<close> up to \<open>await createAudioStream(track)\<close> inside \<open>playTrack\<close>.
  A track without URL makes \<open>playTrack\<close> throw before it awaits anything.\<close>

definition playNext :: "engine \<Rightarrow> call_result" where
  "playNext s =
     (if playing s then Returned s
      else (case dequeue (queue s) of
              (None, _) \<Rightarrow>
                Returned (s\<lparr>currentTrack := None, lastPlayedTrack := None,
                            currentYoutubeThumbnail := None,
                            currentSoundcloudThumbnail := None, playing := False\<rparr>)
            | (Some next, rest) \<Rightarrow>
                (let s1 = s\<lparr>queue := rest\<rparr>
                 in if url next = [] then Returned (playNext_catch s1)
                    else AwaitFetch next s1)))"

text \<open>\<open>playTrack\<close> after \<open>createAudioStream\<close> has resolved: the new pipeline gets
  the next free number. Building the encoder command and registering its handlers
  is taken not to throw.\<close>

definition playTrack_resume :: "Track \<Rightarrow> engine \<Rightarrow> engine" where
  "playTrack_resume track s =
     (let n = length (pipelines s);
          s1 = s\<lparr>pausedAt := None, totalPausedDuration := 0\<rparr>;
          playingTrack = track;
          s2 = s1\<lparr>currentTrack := Some playingTrack, lastPlayedTrack := Some playingTrack,
                  playing := True\<rparr>;
          s3 = (case source track of
                  youtube \<Rightarrow> s2\<lparr>currentYoutubeThumbnail := thumbnail track,
                                 currentSoundcloudThumbnail := None\<rparr>
                | soundcloud \<Rightarrow> s2\<lparr>currentSoundcloudThumbnail := thumbnail track,
                                    currentYoutubeThumbnail := None\<rparr>);
          s4 = s3\<lparr>pipelines := pipelines s3 @ [\<lparr>p_track = track, hasStarted = False\<rparr>],
                  stopCurrent := Some n\<rparr>
      in set_timeout 30000 (SafetyTimeout n) s4)"

text \<open>\<open>playNext\<close> after \<open>createAudioStream\<close> has settled.\<close>

definition playNext_resume :: "fetch_result \<Rightarrow> Track \<Rightarrow> engine \<Rightarrow> engine" where
  "playNext_resume r track s =
     (case r of FetchOk \<Rightarrow> playTrack_resume track s | FetchFailed \<Rightarrow> playNext_catch s)"

text \<open>\<open>ensurePlaying\<close> up to its suspension: the pending call is recorded with the
  mark that \<open>finally { this.starting = false }\<close> is still to run.\<close>

definition ensurePlaying :: "engine \<Rightarrow> engine" where
  "ensurePlaying s =
     (if playing s \<or> starting s then s
      else (case playNext (s\<lparr>starting := True\<rparr>) of
              Returned s' \<Rightarrow> s'\<lparr>starting := False\<rparr>
            | AwaitFetch t s' \<Rightarrow> s'\<lparr>fetching := fetching s' @ [(t, True)]\<rparr>))"

text \<open>\<open>void this.playNext()\<close>: nobody awaits the call.\<close>

definition playNext_detached :: "engine \<Rightarrow> engine" where
  "playNext_detached s =
     (case playNext s of
        Returned s' \<Rightarrow> s'
      | AwaitFetch t s' \<Rightarrow> s'\<lparr>fetching := fetching s' @ [(t, False)]\<rparr>)"

text \<open>The \<open>i\<close>-th suspended call resumes when its \<open>createAudioStream\<close> settles.\<close>

definition fetch_settled :: "nat \<Rightarrow> fetch_result \<Rightarrow> engine \<Rightarrow> engine" where
  "fetch_settled i r s =
     (if i < length (fetching s) then
        (let (t, from_ensure) = fetching s ! i;
             s1 = playNext_resume r t (s\<lparr>fetching := splice_out i (fetching s)\<rparr>)
         in if from_ensure then s1\<lparr>starting := False\<rparr> else s1)
      else s)"

definition skipCurrent :: "engine \<Rightarrow> engine" where
  "skipCurrent s =
     (let s1 = s\<lparr>skipping := True\<rparr>;
          s2 = (case stopCurrent s1 of
                  None \<Rightarrow> s1
                | Some n \<Rightarrow> s1\<lparr>stopped := stopped s1 @ [n], stopCurrent := None\<rparr>);
          s3 = s2\<lparr>currentFfmpegPid := None, playing := False, currentTrack := None\<rparr>
      in set_timeout 150 SkipDone s3)"

text \<open>The 150 ms callback of \<open>skipCurrent\<close>.\<close>

definition skip_done :: "engine \<Rightarrow> engine" where
  "skip_done s = playNext_detached (s\<lparr>skipping := False\<rparr>)"

subsection \<open>Encoder events of pipeline \<open>n\<close>\<close>

text \<open>\<open>'start'\<close>: the pid is stored when the process object has a truthy pid.\<close>

definition on_start :: "nat option \<Rightarrow> engine \<Rightarrow> engine" where
  "on_start pid s =
     (case pid of
        None \<Rightarrow> s
      | Some p \<Rightarrow> if p \<noteq> 0 then s\<lparr>currentFfmpegPid := Some p\<rparr> else s)"

definition advance_unless_skipping :: "engine \<Rightarrow> engine" where
  "advance_unless_skipping s = (if \<not> skipping s then set_timeout 100 PlayNextCb s else s)"

definition on_error :: "engine \<Rightarrow> engine" where
  "on_error s =
     advance_unless_skipping
       (s\<lparr>playing := False, stopCurrent := None, currentFfmpegPid := None\<rparr>)"

definition on_end :: "engine \<Rightarrow> engine" where
  "on_end s =
     advance_unless_skipping
       (sendSilence (s\<lparr>playing := False, stopCurrent := None, currentFfmpegPid := None\<rparr>))"

definition on_output_error :: "engine \<Rightarrow> engine" where
  "on_output_error s = advance_unless_skipping (s\<lparr>playing := False, stopCurrent := None\<rparr>)"

text \<open>\<open>'data'\<close>: the first chunk stamps \<open>startedAt\<close> and clears the safety timer.\<close>

definition on_data :: "nat \<Rightarrow> buffer \<Rightarrow> int \<Rightarrow> engine \<Rightarrow> engine" where
  "on_data n chunk now s =
     (if n < length (pipelines s) then
        (let p = pipelines s ! n;
             s1 = (if \<not> hasStarted p then
                     (let stamped = Some ((p_track p)\<lparr>startedAt := Some now\<rparr>)
                      in s\<lparr>currentTrack := stamped, lastPlayedTrack := stamped,
                           pipelines := (pipelines s)[n := p\<lparr>hasStarted := True\<rparr>],
                           timers := filter (\<lambda>(_, cb). cb \<noteq> SafetyTimeout n) (timers s)\<rparr>)
                   else s)
         in broadcastChunk chunk s1)
      else s)"

definition safety_timeout :: "nat \<Rightarrow> engine \<Rightarrow> engine" where
  "safety_timeout n s =
     (if n < length (pipelines s) then
        (let p = pipelines s ! n
         in if \<not> hasStarted p \<and> map_option id_t (currentTrack s) = Some (id_t (p_track p))
            then set_timeout 100 PlayNextCb (s\<lparr>playing := False\<rparr>)
            else s)
      else s)"

text \<open>The \<open>i\<close>-th pending timer fires.\<close>

definition timer_fired :: "nat \<Rightarrow> engine \<Rightarrow> engine" where
  "timer_fired i s =
     (if i < length (timers s) then
        (let cb = snd (timers s ! i);
             s1 = s\<lparr>timers := splice_out i (timers s)\<rparr>
         in case cb of
              SkipDone \<Rightarrow> skip_done s1
            | PlayNextCb \<Rightarrow> playNext_detached s1
            | SafetyTimeout n \<Rightarrow> safety_timeout n s1)
      else s)"

section \<open>The engine as a transition system\<close>

text \<open>The queue operations as the HTTP handlers of \<open>index.ts\<close> apply them to the
  shared queue. \<open>enqueue_request\<close> also records the id \<open>randomUUID\<close> returned.\<close>

definition enqueue_request :: "string \<Rightarrow> Track \<Rightarrow> engine \<Rightarrow> engine" where
  "enqueue_request uuid payload s =
     s\<lparr>queue := snd (enqueue uuid payload (queue s)), issued := issued s @ [uuid]\<rparr>"

definition dequeue_request :: "engine \<Rightarrow> engine" where
  "dequeue_request s = s\<lparr>queue := snd (dequeue (queue s))\<rparr>"

definition remove_request :: "string \<Rightarrow> engine \<Rightarrow> engine" where
  "remove_request trackId s = s\<lparr>queue := snd (remove_track trackId (queue s))\<rparr>"

definition move_request :: "string \<Rightarrow> int \<Rightarrow> engine \<Rightarrow> engine" where
  "move_request trackId newIndex s = s\<lparr>queue := snd (move trackId newIndex (queue s))\<rparr>"

text \<open>
  The states of a running server: from the state the constructors leave, any
  sequence of handler calls and callbacks, each run to completion. The environment
  supplies: ids of \<open>randomUUID\<close>, which are fresh; payloads without \<open>startedAt\<close>,
  as both object literals in the \<open>POST /api/queue\<close> handler are; the reading
  of \<open>Date.now()\<close> that stamps a first chunk, which is positive; and the outcome
  of every fetch, chunk and process start. \<open>playNext\<close> is private and runs from timers and from
  \<open>ensurePlaying\<close>; it is also a step of its own here.
\<close>

inductive reachable :: "engine \<Rightarrow> bool" where
  r_init: "reachable initial_engine"
| r_enqueue: "reachable s \<Longrightarrow> uuid \<notin> set (issued s) \<Longrightarrow> startedAt payload = None
    \<Longrightarrow> reachable (enqueue_request uuid payload s)"
| r_dequeue: "reachable s \<Longrightarrow> reachable (dequeue_request s)"
| r_remove: "reachable s \<Longrightarrow> reachable (remove_request trackId s)"
| r_move: "reachable s \<Longrightarrow> reachable (move_request trackId newIndex s)"
| r_ensurePlaying: "reachable s \<Longrightarrow> reachable (ensurePlaying s)"
| r_playNext: "reachable s \<Longrightarrow> reachable (playNext_detached s)"
| r_skipCurrent: "reachable s \<Longrightarrow> reachable (skipCurrent s)"
| r_setPaused: "reachable s \<Longrightarrow> reachable (setPaused p now s)"
| r_fetch_settled: "reachable s \<Longrightarrow> reachable (fetch_settled i r s)"
| r_timer_fired: "reachable s \<Longrightarrow> reachable (timer_fired i s)"
| r_on_start: "reachable s \<Longrightarrow> reachable (on_start pid s)"
| r_on_data: "reachable s \<Longrightarrow> 0 < now \<Longrightarrow> reachable (on_data n chunk now s)"
| r_on_end: "reachable s \<Longrightarrow> reachable (on_end s)"
| r_on_error: "reachable s \<Longrightarrow> reachable (on_error s)"
| r_on_output_error: "reachable s \<Longrightarrow> reachable (on_output_error s)"
| r_attachClient: "reachable s \<Longrightarrow> n \<notin> tap_no ` set (taps s)
    \<Longrightarrow> reachable (attachClient n s)"
| r_client_close: "reachable s \<Longrightarrow> reachable (client_close n s)"
| r_silence_tick: "reachable s \<Longrightarrow> reachable (silence_tick s)"



definition stamp_ok :: "Track \<Rightarrow> bool" where
  "stamp_ok t = (case startedAt t of None \<Rightarrow> True | Some a \<Rightarrow> 0 < a)"

definition stamps_inv :: "engine \<Rightarrow> bool" where
  "stamps_inv s = (list_all (\<lambda>t. startedAt t = None) (queue s)
     \<and> list_all (\<lambda>t. startedAt t = None) (map fst (fetching s))
     \<and> list_all (\<lambda>t. startedAt t = None) (map p_track (pipelines s))
     \<and> (case currentTrack s of None \<Rightarrow> True | Some t \<Rightarrow> stamp_ok t)
     \<and> (case lastPlayedTrack s of None \<Rightarrow> True | Some t \<Rightarrow> stamp_ok t))"

text \<open>Two states agree on the queue, on the tracks the engine owns and on the ids
  issued.\<close>

definition same_core :: "engine \<Rightarrow> engine \<Rightarrow> bool" where
  "same_core s' s = (queue s' = queue s \<and> issued s' = issued s
     \<and> fetching s' = fetching s \<and> pipelines s' = pipelines s
     \<and> currentTrack s' = currentTrack s \<and> lastPlayedTrack s' = lastPlayedTrack s)"

section \<open>The generic HTTP fetch (player.ts, \<open>fetchRemoteStream\<close>)\<close>

subsection \<open>String helpers of the JavaScript library\<close>







subsection \<open>Requests and responses\<close>












section \<open>URL normalisation (index.ts, \<open>normalizeYoutubeUrl\<close>)\<close>







subsection \<open>Plain URLs\<close>















section \<open>Concrete inputs for the worked examples\<close>

definition demo_requester :: requester where
  "demo_requester = \<lparr>requester_id = ''u1'', displayName = ''User'', avatar = None\<rparr>"

definition demo_track :: "string \<Rightarrow> Track" where
  "demo_track i = \<lparr>id_t = i, url = ''https://youtu.be/'' @ i, title = ''Track '' @ i,
     thumbnail = None, duration = None, startedAt = None, source = youtube,
     requestedBy = demo_requester\<rparr>"

definition demo_queue :: "Track list" where
  "demo_queue = [demo_track ''a'', demo_track ''b'', demo_track ''c'']"

text \<open>A listener attaches, the stream is paused at time 1000 while idle, a track
  is enqueued and started, and its encoder reports pid 4711.\<close>

definition demo_paused_then_started :: engine where
  "demo_paused_then_started =
     on_start (Some 4711)
       (fetch_settled 0 FetchOk
          (ensurePlaying
             (enqueue_request ''a'' (demo_track ''x'')
                (setPaused True 1000 (attachClient 1 initial_engine)))))"

text \<open>A playing engine with encoder pid 4711, one live sink and one destroyed sink
  that is still in the set.\<close>

definition demo_two_taps :: engine where
  "demo_two_taps = initial_engine\<lparr>
     taps := [\<lparr>tap_no = 1, destroyed = False, written = [SILENCE_FRAME]\<rparr>,
              \<lparr>tap_no = 2, destroyed = True, written = [SILENCE_FRAME]\<rparr>],
     playing := True, currentFfmpegPid := Some 4711,
     currentTrack := Some ((demo_track ''a'')\<lparr>startedAt := Some 1000\<rparr>),
     lastPlayedTrack := Some ((demo_track ''a'')\<lparr>startedAt := Some 1000\<rparr>)\<rparr>"

text \<open>A listener attaches, two tracks are enqueued, the first one is started, its
  encoder reports pid 4711 and delivers its first chunk at time 1000.\<close>

definition demo_playing :: engine where
  "demo_playing =
     on_data 0 [1, 2, 3] 1000
       (on_start (Some 4711)
          (fetch_settled 0 FetchOk
             (ensurePlaying
                (enqueue_request ''b'' (demo_track ''y'')
                   (enqueue_request ''a'' (demo_track ''x'')
                      (attachClient 1 initial_engine))))))"

text \<open>Then the stream is paused from 4000 to 9000, and paused again at 12000.\<close>

definition demo_resumed :: engine where
  "demo_resumed = setPaused False 9000 (setPaused True 4000 demo_playing)"

definition demo_paused_again :: engine where
  "demo_paused_again = setPaused True 12000 demo_resumed"

text \<open>An idle engine with one listener and one queued track.\<close>

definition demo_idle_queued :: engine where
  "demo_idle_queued =
     enqueue_request ''a'' (demo_track ''x'') (attachClient 1 initial_engine)"






text \<open>An idle engine whose only queued track has no URL.\<close>

definition demo_idle_nourl :: engine where
  "demo_idle_nourl =
     enqueue_request ''n'' ((demo_track ''z'')\<lparr>url := []\<rparr>) (attachClient 1 initial_engine)"



section \<open>Properties of the track queue\<close>

lemma findIndex_Some:
  "findIndex P xs = Some i \<Longrightarrow> i < length xs \<and> P (xs ! i) \<and> (\<forall>j<i. \<not> P (xs ! j))"
proof (induction xs arbitrary: i)
  case Nil
  then show ?case by simp
next
  case (Cons x xs)
  show ?case
  proof (cases "P x")
    case True
    with Cons.prems show ?thesis by simp
  next
    case False
    with Cons.prems obtain k where k: "findIndex P xs = Some k" "i = Suc k" by auto
    from Cons.IH[OF k(1)] have a: "k < length xs" "P (xs ! k)" "\<forall>j<k. \<not> P (xs ! j)" by auto
    have "\<not> P ((x # xs) ! j)" if "j < i" for j
      using that a(3) False k(2) by (cases j) auto
    with a k(2) show ?thesis by simp
  qed
qed

lemma findIndex_None: "findIndex P xs = None \<longleftrightarrow> (\<forall>x\<in>set xs. \<not> P x)"
  by (induction xs) auto

lemma length_splice_out: "i < length xs \<Longrightarrow> length (splice_out i xs) = length xs - 1"
  by (simp add: splice_out_def)

lemma length_splice_in: "length (splice_in c x xs) = Suc (length xs)"
  by (simp add: splice_in_def)

lemma nth_splice_in: "c \<le> length xs \<Longrightarrow> splice_in c x xs ! c = x"
  by (simp add: splice_in_def nth_append)

lemma splice_out_splice_in: "c \<le> length xs \<Longrightarrow> splice_out c (splice_in c x xs) = xs"
  by (simp add: splice_in_def splice_out_def)

lemma set_splice_out: "set (splice_out i xs) \<subseteq> set xs"
  unfolding splice_out_def using set_take_subset[of i xs] set_drop_subset[of "Suc i" xs]
  by auto

lemma clamp_lt: "0 < n \<Longrightarrow> nat (max 0 (min k (int n - 1))) < n"
  by linarith

lemma move_present:
  assumes "trackId \<in> id_t ` set q"
  shows "\<exists>i. findIndex (\<lambda>t. id_t t = trackId) q = Some i \<and> i < length q \<and> id_t (q ! i) = trackId
     \<and> fst (move trackId k q)
     \<and> (let c = nat (max 0 (min k (int (length q) - 1))); q' = snd (move trackId k q)
        in length q' = length q \<and> c < length q \<and> q' ! c = q ! i \<and> splice_out c q' = splice_out i q)"
proof -
  from assms have "findIndex (\<lambda>t. id_t t = trackId) q \<noteq> None"
    by (auto simp: findIndex_None)
  then obtain i where i: "findIndex (\<lambda>t. id_t t = trackId) q = Some i" by auto
  from findIndex_Some[OF i] have il: "i < length q" and ip: "id_t (q ! i) = trackId" by auto
  define c where "c = nat (max 0 (min k (int (length q) - 1)))"
  have cl: "c < length q" unfolding c_def using il by (intro clamp_lt) auto
  have lr: "length (splice_out i q) = length q - 1" using il by (rule length_splice_out)
  have cr: "c \<le> length (splice_out i q)" using cl lr by simp
  have m: "move trackId k q = (True, splice_in c (q ! i) (splice_out i q))"
    by (simp add: move_def i Let_def c_def)
  have l: "length (splice_in c (q ! i) (splice_out i q)) = length q"
    using lr il by (simp add: length_splice_in)
  have n: "splice_in c (q ! i) (splice_out i q) ! c = q ! i"
    using cr by (rule nth_splice_in)
  have o: "splice_out c (splice_in c (q ! i) (splice_out i q)) = splice_out i q"
    using cr by (rule splice_out_splice_in)
  show ?thesis using i il ip l n o cl unfolding m Let_def c_def[symmetric] by simp
qed

text \<open>
  Claim C3. For a queue \<open>q\<close> that holds the id, \<open>move\<close> returns true; with \<open>i\<close> the
  index \<open>findIndex\<close> finds and \<open>c = max 0 (min k (size - 1))\<close> computed on the size
  before the removal, the new queue has the same length, holds the moved track at
  index \<open>c\<close>, and without that position equals the old queue without position
  \<open>i\<close>, so every other track keeps its relative order. A negative \<open>k\<close> gives
  \<open>c = 0\<close>, a \<open>k\<close> of at least the size gives the last index. With an absent id
  \<open>move\<close> returns false and the queue unchanged. The index is an integer here; a
  fractional or NaN index of the JavaScript \<open>number\<close> type is outside the model.
\<close>

theorem move_clamps_and_reinserts:
  "(trackId \<in> id_t ` set q \<longrightarrow>
      (\<exists>i. findIndex (\<lambda>t. id_t t = trackId) q = Some i \<and> i < length q \<and> id_t (q ! i) = trackId
         \<and> fst (move trackId k q)
         \<and> (let c = nat (max 0 (min k (int (length q) - 1))); q' = snd (move trackId k q)
            in length q' = length q \<and> c < length q \<and> q' ! c = q ! i
               \<and> splice_out c q' = splice_out i q
               \<and> (k < 0 \<longrightarrow> c = 0) \<and> (int (length q) \<le> k \<longrightarrow> c = length q - 1))))
   \<and> (trackId \<notin> id_t ` set q \<longrightarrow> move trackId k q = (False, q))"
proof (intro conjI impI)
  assume a: "trackId \<in> id_t ` set q"
  have c0: "k < 0 \<Longrightarrow> nat (max 0 (min k (int (length q) - 1))) = 0" by linarith
  have c1: "int (length q) \<le> k \<Longrightarrow> nat (max 0 (min k (int (length q) - 1))) = length q - 1"
    by linarith
  from move_present[OF a, of k] obtain i where
    i: "findIndex (\<lambda>t. id_t t = trackId) q = Some i" "i < length q" "id_t (q ! i) = trackId"
       "fst (move trackId k q)"
       "(let c = nat (max 0 (min k (int (length q) - 1))); q' = snd (move trackId k q)
        in length q' = length q \<and> c < length q \<and> q' ! c = q ! i \<and> splice_out c q' = splice_out i q)"
    by blast
  show "\<exists>i. findIndex (\<lambda>t. id_t t = trackId) q = Some i \<and> i < length q \<and> id_t (q ! i) = trackId
         \<and> fst (move trackId k q)
         \<and> (let c = nat (max 0 (min k (int (length q) - 1))); q' = snd (move trackId k q)
            in length q' = length q \<and> c < length q \<and> q' ! c = q ! i
               \<and> splice_out c q' = splice_out i q
               \<and> (k < 0 \<longrightarrow> c = 0) \<and> (int (length q) \<le> k \<longrightarrow> c = length q - 1))"
    using i c0 c1 unfolding Let_def by blast
next
  assume "trackId \<notin> id_t ` set q"
  then have "findIndex (\<lambda>t. id_t t = trackId) q = None"
    by (auto simp: findIndex_None)
  then show "move trackId k q = (False, q)" by (simp add: move_def)
qed

text \<open>The theorem at the queue \<open>[a, b, c]\<close>: moving \<open>c\<close> to \<open>-2\<close> puts it first,
  moving \<open>a\<close> to \<open>7\<close> puts it last, and the absent id \<open>z\<close> changes nothing.\<close>

theorem move_clamps_and_reinserts_witness:
  "''c'' \<in> id_t ` set demo_queue
   \<and> fst (move ''c'' (- 2) demo_queue)
   \<and> snd (move ''c'' (- 2) demo_queue) ! 0 = demo_track ''c''
   \<and> ''a'' \<in> id_t ` set demo_queue
   \<and> snd (move ''a'' 7 demo_queue) ! 2 = demo_track ''a''
   \<and> ''z'' \<notin> id_t ` set demo_queue
   \<and> move ''z'' 1 demo_queue = (False, demo_queue)"
proof -
  have hc: "''c'' \<in> id_t ` set demo_queue" and ha: "''a'' \<in> id_t ` set demo_queue"
    and hz: "''z'' \<notin> id_t ` set demo_queue"
    by (simp_all add: demo_queue_def demo_track_def)
  have ic: "findIndex (\<lambda>t. id_t t = ''c'') demo_queue = Some 2"
    and ia: "findIndex (\<lambda>t. id_t t = ''a'') demo_queue = Some 0"
    by (simp_all add: demo_queue_def demo_track_def)
  have len: "length demo_queue = 3" by (simp add: demo_queue_def)
  have n2: "demo_queue ! 2 = demo_track ''c''" and n0: "demo_queue ! 0 = demo_track ''a''"
    by (simp_all add: demo_queue_def)
  from move_clamps_and_reinserts[of "''c''" demo_queue "- 2"] hc ic len n2
  have c: "fst (move ''c'' (- 2) demo_queue)"
          "snd (move ''c'' (- 2) demo_queue) ! 0 = demo_track ''c''"
    by (auto simp: Let_def)
  from move_clamps_and_reinserts[of "''a''" demo_queue 7] ha ia len n0
  have a: "snd (move ''a'' 7 demo_queue) ! 2 = demo_track ''a''"
    by (auto simp: Let_def)
  from move_clamps_and_reinserts[of "''z''" demo_queue 1] hz
  have z: "move ''z'' 1 demo_queue = (False, demo_queue)" by blast
  show ?thesis using hc ha hz c a z by simp
qed

section \<open>Fan-out and pause\<close>

lemma length_write_taps: "length (write_taps d ts) = length ts"
  by (simp add: write_taps_def)

lemma nth_write_taps:
  "i < length ts \<Longrightarrow> write_taps d ts ! i =
     (if \<not> destroyed (ts ! i) then (ts ! i)\<lparr>written := written (ts ! i) @ [d]\<rparr> else ts ! i)"
  by (simp add: write_taps_def tap_write_def)

lemma signal_encoder_fields:
  "paused (signal_encoder sg s) = paused s"
  "pausedAt (signal_encoder sg s) = pausedAt s"
  "totalPausedDuration (signal_encoder sg s) = totalPausedDuration s"
  "taps (signal_encoder sg s) = taps s"
  "signals (signal_encoder sg s) =
     signals s @ (case currentFfmpegPid s of None \<Rightarrow> []
                  | Some pid \<Rightarrow> if pid \<noteq> 0 then [(pid, sg)] else [])"
  by (simp_all add: signal_encoder_def process_kill_def split: option.splits)

lemma flushWithSilence_fields:
  "paused (flushWithSilence s) = paused s"
  "pausedAt (flushWithSilence s) = pausedAt s"
  "totalPausedDuration (flushWithSilence s) = totalPausedDuration s"
  "signals (flushWithSilence s) = signals s"
  "taps (flushWithSilence s) = write_taps SILENCE_FLUSH (taps s)"
  by (simp_all add: flushWithSilence_def)

text \<open>
  Claim C9. Calling \<open>setPaused p\<close> in a state whose paused flag is already \<open>p\<close>
  returns the state unchanged in every field: \<open>pausedAt\<close> and
  \<open>totalPausedDuration\<close> keep their values, no \<open>process.kill\<close> call is recorded
  and no sink is written. Hence a second \<open>setPaused(true)\<close> right after a first
  changes nothing, whatever the two clock readings are, and \<open>setPaused(false)\<close>
  while not paused is a no-op.
\<close>

theorem setPaused_same_flag_is_noop:
  "(paused s = p \<longrightarrow> setPaused p now s = s)
   \<and> setPaused True n2 (setPaused True n1 s) = setPaused True n1 s
   \<and> (\<not> paused s \<longrightarrow> setPaused False now s = s)"
proof -
  have a: "setPaused p now s = s" if "paused s = p" for p now s
    using that by (cases p) (auto simp: setPaused_def)
  have b: "paused (setPaused True n1 s) = True"
    by (simp add: setPaused_def flushWithSilence_fields signal_encoder_fields)
  show ?thesis using a[of s p now] a[OF b, of n2] a[of s False now]
    by auto
qed

text \<open>
  Claim C6. \<open>broadcastChunk\<close> keeps the set of sinks, appends one chunk to every
  sink that is not destroyed, namely the silence frame while the paused flag is
  true and the given chunk itself otherwise, leaves destroyed sinks as they are,
  and changes no other field of the engine.
\<close>

theorem broadcastChunk_writes:
  "length (taps (broadcastChunk chunk s)) = length (taps s)
   \<and> (\<forall>i < length (taps s).
        taps (broadcastChunk chunk s) ! i =
          (if destroyed (taps s ! i) then taps s ! i
           else (taps s ! i)\<lparr>written := written (taps s ! i) @
                   [if paused s then SILENCE_FRAME else chunk]\<rparr>))
   \<and> (broadcastChunk chunk s)\<lparr>taps := taps s\<rparr> = s"
  by (simp add: broadcastChunk_def Let_def length_write_taps nth_write_taps)


lemma demo_paused_then_started_eval:
  "paused demo_paused_then_started" "pausedAt demo_paused_then_started = None"
  "currentFfmpegPid demo_paused_then_started = Some 4711"
  "signals demo_paused_then_started = []"
  "totalPausedDuration demo_paused_then_started = 0"
  "playing demo_paused_then_started"
  by (simp_all add: demo_paused_then_started_def on_start_def fetch_settled_def
      ensurePlaying_def enqueue_request_def setPaused_def attachClient_def initial_engine_def
      playNext_def dequeue_def enqueue_def demo_track_def playNext_resume_def
      playTrack_resume_def set_timeout_def splice_out_def flushWithSilence_def
      signal_encoder_def write_taps_def Let_def)

lemma setPaused_branches:
 "(\<not> paused s \<longrightarrow>
     (let s' = setPaused True now s;
          armed = signal_encoder SIGSTOP (s\<lparr>pausedAt := Some now, paused := True\<rparr>)
      in s' = flushWithSilence armed \<and> paused armed \<and> taps armed = taps s
         \<and> pausedAt s' = Some now \<and> paused s'
         \<and> totalPausedDuration s' = totalPausedDuration s
         \<and> signals s' = signals s @
              (case currentFfmpegPid s of None \<Rightarrow> []
               | Some pid \<Rightarrow> if pid \<noteq> 0 then [(pid, SIGSTOP)] else [])
         \<and> length (taps s') = length (taps s)
         \<and> (\<forall>i < length (taps s).
               taps s' ! i =
                 (if destroyed (taps s ! i) then taps s ! i
                  else (taps s ! i)\<lparr>written := written (taps s ! i) @
                          [concat (replicate 100 SILENCE_FRAME)]\<rparr>))))
  \<and> (paused s \<and> pausedAt s = Some pa \<and> pa \<noteq> 0 \<longrightarrow>
     (let s' = setPaused False now s
      in totalPausedDuration s' = totalPausedDuration s + (now - pa)
         \<and> pausedAt s' = None \<and> \<not> paused s'
         \<and> signals s' = signals s @
              (case currentFfmpegPid s of None \<Rightarrow> []
               | Some pid \<Rightarrow> if pid \<noteq> 0 then [(pid, SIGCONT)] else [])
         \<and> taps s' = taps s))"
proof (intro conjI impI)
  assume np: "\<not> paused s"
  define armed where "armed = signal_encoder SIGSTOP (s\<lparr>pausedAt := Some now, paused := True\<rparr>)"
  have e: "setPaused True now s = flushWithSilence armed"
    using np by (simp add: setPaused_def armed_def)
  have a: "paused armed" "taps armed = taps s" "pausedAt armed = Some now"
    "totalPausedDuration armed = totalPausedDuration s"
    "signals armed = signals s @
              (case currentFfmpegPid s of None \<Rightarrow> []
               | Some pid \<Rightarrow> if pid \<noteq> 0 then [(pid, SIGSTOP)] else [])"
    by (simp_all add: armed_def signal_encoder_fields)
  show "let s' = setPaused True now s;
          armed = signal_encoder SIGSTOP (s\<lparr>pausedAt := Some now, paused := True\<rparr>)
      in s' = flushWithSilence armed \<and> paused armed \<and> taps armed = taps s
         \<and> pausedAt s' = Some now \<and> paused s'
         \<and> totalPausedDuration s' = totalPausedDuration s
         \<and> signals s' = signals s @
              (case currentFfmpegPid s of None \<Rightarrow> []
               | Some pid \<Rightarrow> if pid \<noteq> 0 then [(pid, SIGSTOP)] else [])
         \<and> length (taps s') = length (taps s)
         \<and> (\<forall>i < length (taps s).
               taps s' ! i =
                 (if destroyed (taps s ! i) then taps s ! i
                  else (taps s ! i)\<lparr>written := written (taps s ! i) @
                          [concat (replicate 100 SILENCE_FRAME)]\<rparr>))"
    unfolding Let_def armed_def[symmetric] e
    using a by (simp add: flushWithSilence_fields length_write_taps nth_write_taps
        SILENCE_FLUSH_def)
next
  assume p: "paused s \<and> pausedAt s = Some pa \<and> pa \<noteq> 0"
  then have e: "setPaused False now s = signal_encoder SIGCONT
          (s\<lparr>totalPausedDuration := totalPausedDuration s + (now - pa),
             pausedAt := None, paused := False\<rparr>)"
    by (simp add: setPaused_def)
  show "let s' = setPaused False now s
      in totalPausedDuration s' = totalPausedDuration s + (now - pa)
         \<and> pausedAt s' = None \<and> \<not> paused s'
         \<and> signals s' = signals s @
              (case currentFfmpegPid s of None \<Rightarrow> []
               | Some pid \<Rightarrow> if pid \<noteq> 0 then [(pid, SIGCONT)] else [])
         \<and> taps s' = taps s"
    unfolding Let_def e by (simp add: signal_encoder_fields)
qed

lemma setPaused_unstamped:
  "paused s \<and> (pausedAt s = None \<or> pausedAt s = Some 0) \<Longrightarrow>
     setPaused False now s = s\<lparr>paused := False\<rparr>"
  by (auto simp: setPaused_def)

lemma last_setPaused_trace: "last (setPaused_trace p now s) = setPaused p now s"
  by (simp add: setPaused_trace_def setPaused_def Let_def)

lemma setPaused_trace_order:
  assumes np: "\<not> paused s" and m: "st \<in> set (setPaused_trace True now s)"
    and c: "taps st \<noteq> taps s \<or> signals st \<noteq> signals s"
  shows "paused st \<and> pausedAt st = Some now"
proof -
  define s1 where "s1 = s\<lparr>pausedAt := Some now\<rparr>"
  define s2 where "s2 = s1\<lparr>paused := True\<rparr>"
  define s3 where "s3 = signal_encoder SIGSTOP s2"
  define s4 where "s4 = flushWithSilence s3"
  have t: "setPaused_trace True now s = [s1, s2, s3, s4]"
    using np by (simp add: setPaused_trace_def Let_def s1_def s2_def s3_def s4_def)
  have u: "taps s1 = taps s" "signals s1 = signals s" by (simp_all add: s1_def)
  have p2: "paused s2 \<and> pausedAt s2 = Some now" by (simp add: s2_def s1_def)
  have p3: "paused s3 \<and> pausedAt s3 = Some now"
    using p2 by (simp add: s3_def signal_encoder_fields)
  have p4: "paused s4 \<and> pausedAt s4 = Some now"
    using p3 by (simp add: s4_def flushWithSilence_fields)
  from m have "st = s1 \<or> st = s2 \<or> st = s3 \<or> st = s4" unfolding t by simp
  then show ?thesis
  proof (elim disjE)
    assume "st = s1"
    with c u show ?thesis by simp
  next
    assume "st = s2"
    with p2 show ?thesis by simp
  next
    assume "st = s3"
    with p3 show ?thesis by simp
  next
    assume "st = s4"
    with p4 show ?thesis by simp
  qed
qed

text \<open>
  Claim C5, as amended. \<open>setPaused(true)\<close> while not paused: the result is the
  flush applied to a state that already has \<open>pausedAt = now\<close> and the paused flag
  set and in which no sink has been written yet; \<open>SIGSTOP\<close> is sent to the encoder
  exactly when a non-zero pid is stored; every sink that is not destroyed receives
  one chunk, the silence frame repeated 100 times, and a destroyed sink receives
  nothing. \<open>setPaused(false)\<close> while paused with a non-zero \<open>pausedAt\<close> recorded:
  \<open>now - pausedAt\<close> is added to \<open>totalPausedDuration\<close>, \<open>pausedAt\<close> is cleared,
  the flag is cleared, \<open>SIGCONT\<close> is sent exactly when a non-zero pid is stored,
  and no sink is written. \<open>setPaused(false)\<close> while paused with \<open>pausedAt\<close> null
  (or 0): only the paused flag is cleared; every other field, the signals sent and
  the sinks among them, stays as it is. The order of the statements: the handler
  ends in the state \<open>setPaused\<close> gives, and when pausing, every state of the
  handler in which a sink has been written or a signal has been sent already has
  the paused flag set and \<open>pausedAt = now\<close>.
\<close>

theorem setPaused_pause_and_resume:
 "(\<not> paused s \<longrightarrow>
     (let s' = setPaused True now s;
          armed = signal_encoder SIGSTOP (s\<lparr>pausedAt := Some now, paused := True\<rparr>)
      in s' = flushWithSilence armed \<and> paused armed \<and> taps armed = taps s
         \<and> pausedAt s' = Some now \<and> paused s'
         \<and> totalPausedDuration s' = totalPausedDuration s
         \<and> signals s' = signals s @
              (case currentFfmpegPid s of None \<Rightarrow> []
               | Some pid \<Rightarrow> if pid \<noteq> 0 then [(pid, SIGSTOP)] else [])
         \<and> length (taps s') = length (taps s)
         \<and> (\<forall>i < length (taps s).
               taps s' ! i =
                 (if destroyed (taps s ! i) then taps s ! i
                  else (taps s ! i)\<lparr>written := written (taps s ! i) @
                          [concat (replicate 100 SILENCE_FRAME)]\<rparr>))))
  \<and> (paused s \<and> pausedAt s = Some pa \<and> pa \<noteq> 0 \<longrightarrow>
     (let s' = setPaused False now s
      in totalPausedDuration s' = totalPausedDuration s + (now - pa)
         \<and> pausedAt s' = None \<and> \<not> paused s'
         \<and> signals s' = signals s @
              (case currentFfmpegPid s of None \<Rightarrow> []
               | Some pid \<Rightarrow> if pid \<noteq> 0 then [(pid, SIGCONT)] else [])
         \<and> taps s' = taps s))
  \<and> (paused s \<and> (pausedAt s = None \<or> pausedAt s = Some 0) \<longrightarrow>
       setPaused False now s = s\<lparr>paused := False\<rparr>)
  \<and> last (setPaused_trace p now s) = setPaused p now s
  \<and> (\<not> paused s \<longrightarrow>
       (\<forall>st \<in> set (setPaused_trace True now s).
          taps st \<noteq> taps s \<or> signals st \<noteq> signals s \<longrightarrow>
            paused st \<and> pausedAt st = Some now))"
  using setPaused_branches[of s now pa] setPaused_unstamped[of s now]
    last_setPaused_trace[of p now s] setPaused_trace_order[of s _ now]
  by blast

text \<open>
  Claim C5 as stated fails. \<open>playTrack\<close> resets \<open>pausedAt\<close> to null and leaves the
  paused flag alone, so after a pause followed by the start of a track the engine
  is paused with no \<open>pausedAt\<close>; the guard \<open>this.paused && this.pausedAt\<close> then
  sends \<open>setPaused(false)\<close> to the last branch, which only clears the flag: no
  \<open>SIGCONT\<close> although pid 4711 is known, and nothing added to
  \<open>totalPausedDuration\<close>. And a destroyed sink that is still in the set receives
  no flush block on \<open>setPaused(true)\<close>.
\<close>

theorem setPaused_resume_counterexample:
  "paused demo_paused_then_started
   \<and> currentFfmpegPid demo_paused_then_started = Some 4711
   \<and> signals (setPaused False 5000 demo_paused_then_started) = []
   \<and> signals (setPaused False 5000 demo_paused_then_started)
       \<noteq> signals demo_paused_then_started @ [(4711, SIGCONT)]
   \<and> totalPausedDuration (setPaused False 5000 demo_paused_then_started) = 0
   \<and> \<not> paused (setPaused False 5000 demo_paused_then_started)
   \<and> \<not> paused demo_two_taps
   \<and> taps demo_two_taps ! 1 \<in> set (taps demo_two_taps)
   \<and> written (taps (setPaused True 2000 demo_two_taps) ! 1) = [SILENCE_FRAME]"
proof -
  have r: "setPaused False 5000 demo_paused_then_started
      = demo_paused_then_started\<lparr>paused := False\<rparr>"
    using demo_paused_then_started_eval by (simp add: setPaused_def)
  have t: "written (taps (setPaused True 2000 demo_two_taps) ! 1) = [SILENCE_FRAME]"
    by (simp add: setPaused_def demo_two_taps_def initial_engine_def flushWithSilence_def
        signal_encoder_def process_kill_def write_taps_def)
  have u: "\<not> paused demo_two_taps" "taps demo_two_taps ! 1 \<in> set (taps demo_two_taps)"
    by (simp_all add: demo_two_taps_def initial_engine_def)
  show ?thesis unfolding r using demo_paused_then_started_eval t u by simp
qed

text \<open>The paused state without \<open>pausedAt\<close> is a reachable one.\<close>

lemma demo_paused_then_started_reachable: "reachable demo_paused_then_started"
  unfolding demo_paused_then_started_def
  by (intro reachable.intros) (simp_all add: initial_engine_def setPaused_def attachClient_def
      flushWithSilence_def signal_encoder_def demo_track_def)

text \<open>Pause at 2000 and resume at 5000 with encoder 4711 running: 3000 ms are
  accounted, and the live sink holds the flush block; the paused state without
  \<open>pausedAt\<close> only loses its flag; and the last state of the pausing handler, in
  which a signal has been sent, is a state of its trace.\<close>

theorem setPaused_pause_and_resume_witness:
  "\<not> paused demo_two_taps
   \<and> pausedAt (setPaused True 2000 demo_two_taps) = Some 2000
   \<and> paused (setPaused True 2000 demo_two_taps)
   \<and> signals (setPaused True 2000 demo_two_taps) = [(4711, SIGSTOP)]
   \<and> written (taps (setPaused True 2000 demo_two_taps) ! 0)
       = [SILENCE_FRAME, concat (replicate 100 SILENCE_FRAME)]
   \<and> totalPausedDuration (setPaused False 5000 (setPaused True 2000 demo_two_taps)) = 3000
   \<and> pausedAt (setPaused False 5000 (setPaused True 2000 demo_two_taps)) = None
   \<and> signals (setPaused False 5000 (setPaused True 2000 demo_two_taps))
       = [(4711, SIGSTOP), (4711, SIGCONT)]
   \<and> paused demo_paused_then_started \<and> pausedAt demo_paused_then_started = None
   \<and> setPaused False 5000 demo_paused_then_started
       = demo_paused_then_started\<lparr>paused := False\<rparr>
   \<and> setPaused True 2000 demo_two_taps \<in> set (setPaused_trace True 2000 demo_two_taps)
   \<and> signals (setPaused True 2000 demo_two_taps) \<noteq> signals demo_two_taps"
proof -
  have h: "\<not> paused demo_two_taps" "currentFfmpegPid demo_two_taps = Some 4711"
    "signals demo_two_taps = []" "totalPausedDuration demo_two_taps = 0"
    "length (taps demo_two_taps) = 2" "\<not> destroyed (taps demo_two_taps ! 0)"
    "written (taps demo_two_taps ! 0) = [SILENCE_FRAME]"
    by (simp_all add: demo_two_taps_def initial_engine_def)
  define s1 where "s1 = setPaused True 2000 demo_two_taps"
  note t = setPaused_pause_and_resume[where s=demo_two_taps and now=2000 and p=True,
      THEN conjunct1, THEN mp, OF h(1), unfolded Let_def, folded s1_def]
  from t have a0: "pausedAt s1 = Some 2000" "paused s1"
    "totalPausedDuration s1 = totalPausedDuration demo_two_taps"
    "signals s1 = signals demo_two_taps @
              (case currentFfmpegPid demo_two_taps of None \<Rightarrow> []
               | Some pid \<Rightarrow> if pid \<noteq> 0 then [(pid, SIGSTOP)] else [])"
    "\<forall>i < length (taps demo_two_taps).
               taps s1 ! i =
                 (if destroyed (taps demo_two_taps ! i) then taps demo_two_taps ! i
                  else (taps demo_two_taps ! i)\<lparr>written := written (taps demo_two_taps ! i) @
                          [concat (replicate 100 SILENCE_FRAME)]\<rparr>)"
    by blast+
  from a0 h have a: "pausedAt s1 = Some 2000" "paused s1" "signals s1 = [(4711, SIGSTOP)]"
    "totalPausedDuration s1 = 0"
    "written (taps s1 ! 0) = [SILENCE_FRAME, concat (replicate 100 SILENCE_FRAME)]"
    by simp_all
  have p: "currentFfmpegPid s1 = Some 4711"
    unfolding s1_def using h
    by (simp add: setPaused_def flushWithSilence_def signal_encoder_def process_kill_def)
  have g: "paused s1 \<and> pausedAt s1 = Some 2000 \<and> (2000::int) \<noteq> 0" using a by simp
  note u = setPaused_pause_and_resume[where s=s1 and pa=2000 and now=5000 and p=False,
      THEN conjunct2, THEN conjunct1, THEN mp, OF g, unfolded Let_def]
  from u a p
  have b: "totalPausedDuration (setPaused False 5000 s1) = 3000"
    "pausedAt (setPaused False 5000 s1) = None"
    "signals (setPaused False 5000 s1) = [(4711, SIGSTOP), (4711, SIGCONT)]"
    by simp_all
  have k: "paused demo_paused_then_started
      \<and> (pausedAt demo_paused_then_started = None \<or> pausedAt demo_paused_then_started = Some 0)"
    using demo_paused_then_started_eval by simp
  note c = setPaused_pause_and_resume[where s=demo_paused_then_started and now=5000
      and p=False and pa=0, THEN conjunct2, THEN conjunct2, THEN conjunct1, THEN mp, OF k]
  note l = setPaused_pause_and_resume[where s=demo_two_taps and now=2000 and p=True and pa=0,
      THEN conjunct2, THEN conjunct2, THEN conjunct2, THEN conjunct1]
  have ne: "setPaused_trace True 2000 demo_two_taps \<noteq> []"
    using h(1) by (simp add: setPaused_trace_def Let_def)
  have d: "s1 \<in> set (setPaused_trace True 2000 demo_two_taps)"
    unfolding s1_def l[symmetric] using ne by (rule last_in_set)
  have e: "signals s1 \<noteq> signals demo_two_taps" using a(3) h(3) by simp
  note o = setPaused_pause_and_resume[where s=demo_two_taps and now=2000 and p=True and pa=0,
      THEN conjunct2, THEN conjunct2, THEN conjunct2, THEN conjunct2, THEN mp, OF h(1),
      THEN bspec, OF d, THEN mp, OF disjI2, OF e]
  show ?thesis
    using h(1) o a(3,5) b k c d e demo_paused_then_started_eval(2) unfolding s1_def by simp
qed

text \<open>A chunk of three bytes reaches the live sink, the destroyed sink is left
  alone, and with the paused flag set the live sink gets the silence frame.\<close>

theorem broadcastChunk_writes_witness:
  "\<not> paused demo_two_taps
   \<and> written (taps (broadcastChunk [1, 2, 3] demo_two_taps) ! 0) = [SILENCE_FRAME, [1, 2, 3]]
   \<and> taps (broadcastChunk [1, 2, 3] demo_two_taps) ! 1 = taps demo_two_taps ! 1
   \<and> paused (demo_two_taps\<lparr>paused := True\<rparr>)
   \<and> written (taps (broadcastChunk [1, 2, 3] (demo_two_taps\<lparr>paused := True\<rparr>)) ! 0)
       = [SILENCE_FRAME, SILENCE_FRAME]"
proof -
  have h: "\<not> paused demo_two_taps" "length (taps demo_two_taps) = 2"
    "\<not> destroyed (taps demo_two_taps ! 0)" "destroyed (taps demo_two_taps ! 1)"
    "written (taps demo_two_taps ! 0) = [SILENCE_FRAME]"
    by (simp_all add: demo_two_taps_def initial_engine_def)
  from broadcastChunk_writes[of "[1, 2, 3]" demo_two_taps] h
  have a: "taps (broadcastChunk [1, 2, 3] demo_two_taps) ! 0
      = (taps demo_two_taps ! 0)\<lparr>written := [SILENCE_FRAME, [1, 2, 3]]\<rparr>"
    "taps (broadcastChunk [1, 2, 3] demo_two_taps) ! 1 = taps demo_two_taps ! 1"
    by simp_all
  from broadcastChunk_writes[of "[1, 2, 3]" "demo_two_taps\<lparr>paused := True\<rparr>"] h
  have b: "taps (broadcastChunk [1, 2, 3] (demo_two_taps\<lparr>paused := True\<rparr>)) ! 0
      = (taps demo_two_taps ! 0)\<lparr>written := [SILENCE_FRAME, SILENCE_FRAME]\<rparr>"
    by simp
  show ?thesis using h a b by simp
qed

text \<open>Resuming an engine that is not paused, and pausing twice.\<close>

theorem setPaused_same_flag_is_noop_witness:
  "paused demo_two_taps = False
   \<and> setPaused False 7000 demo_two_taps = demo_two_taps
   \<and> setPaused True 9000 (setPaused True 2000 demo_two_taps)
       = setPaused True 2000 demo_two_taps
   \<and> pausedAt (setPaused True 9000 (setPaused True 2000 demo_two_taps)) = Some 2000"
proof -
  have h: "paused demo_two_taps = False"
    by (simp add: demo_two_taps_def initial_engine_def)
  have p: "pausedAt (setPaused True 2000 demo_two_taps) = Some 2000"
    using h by (simp add: setPaused_def flushWithSilence_def signal_encoder_def
        process_kill_def split: option.splits)
  from setPaused_same_flag_is_noop[where s=demo_two_taps and p=False and now=7000 and ?n2.0=9000 and ?n1.0=2000] h p
  show ?thesis by simp
qed


section \<open>Invariants of the reachable states\<close>


lemma mset_splice_out:
  "i < length xs \<Longrightarrow> add_mset (xs ! i) (mset (splice_out i xs)) = mset xs"
proof -
  assume a: "i < length xs"
  have "mset xs = mset (take i xs @ xs ! i # drop (Suc i) xs)"
    using id_take_nth_drop[OF a] by simp
  then show ?thesis by (simp add: splice_out_def)
qed

lemma mset_splice_in: "mset (splice_in c x xs) = add_mset x (mset xs)"
proof -
  have "mset (take c xs) + mset (drop c xs) = mset xs"
    by (metis append_take_drop_id mset_append)
  then show ?thesis by (simp add: splice_in_def)
qed


lemma mset_move: "mset (snd (move trackId k q)) = mset q"
proof (cases "findIndex (\<lambda>t. id_t t = trackId) q")
  case None
  then show ?thesis by (simp add: move_def)
next
  case (Some i)
  from findIndex_Some[OF Some] have il: "i < length q" by simp
  show ?thesis using mset_splice_out[OF il]
    by (simp add: move_def Some Let_def mset_splice_in)
qed

lemma set_move: "set (snd (move trackId k q)) = set q"
  using mset_move[of trackId k q] by (metis set_mset_mset)


lemma set_remove_track: "set (snd (remove_track trackId q)) \<subseteq> set q"
  using set_splice_out[of _ q] by (auto simp: remove_track_def split: option.splits)




lemma same_core_stamps: "same_core s' s \<Longrightarrow> stamps_inv s' = stamps_inv s"
  by (simp add: same_core_def stamps_inv_def)

lemma same_core_refl: "same_core s s"
  by (simp add: same_core_def)

lemma same_core_trans: "same_core s'' s' \<Longrightarrow> same_core s' s \<Longrightarrow> same_core s'' s"
  by (simp add: same_core_def)

lemma same_core_set_timeout: "same_core (set_timeout ms cb s) s"
  by (simp add: same_core_def set_timeout_def)

lemma same_core_broadcastChunk: "same_core (broadcastChunk chunk s) s"
  by (simp add: same_core_def broadcastChunk_def Let_def)

lemma same_core_sendSilence: "same_core (sendSilence s) s"
  by (simp add: sendSilence_def same_core_broadcastChunk same_core_refl)

lemma same_core_silence_tick: "same_core (silence_tick s) s"
  by (simp add: silence_tick_def same_core_broadcastChunk same_core_refl)

lemma same_core_setPaused: "same_core (setPaused p now s) s"
  by (simp add: same_core_def setPaused_def flushWithSilence_def signal_encoder_def
      process_kill_def split: option.splits)

lemma same_core_attachClient: "same_core (attachClient n s) s"
  by (simp add: same_core_def attachClient_def)

lemma same_core_client_close: "same_core (client_close n s) s"
  by (simp add: same_core_def client_close_def)

lemma same_core_on_start: "same_core (on_start pid s) s"
  by (simp add: same_core_def on_start_def split: option.splits)

lemma same_core_advance: "same_core (advance_unless_skipping s) s"
  by (simp add: advance_unless_skipping_def same_core_set_timeout same_core_refl)

lemma same_core_on_error: "same_core (on_error s) s"
  unfolding on_error_def
  by (rule same_core_trans[OF same_core_advance]) (simp add: same_core_def)

lemma same_core_on_output_error: "same_core (on_output_error s) s"
  unfolding on_output_error_def
  by (rule same_core_trans[OF same_core_advance]) (simp add: same_core_def)

lemma same_core_on_end: "same_core (on_end s) s"
  unfolding on_end_def
  by (rule same_core_trans[OF same_core_advance], rule same_core_trans[OF same_core_sendSilence])
     (simp add: same_core_def)

lemma same_core_safety_timeout: "same_core (safety_timeout n s) s"
  by (simp add: safety_timeout_def Let_def same_core_def set_timeout_def)


lemma playNext_cases:
  "playNext s =
     (if playing s then Returned s
      else case queue s of
             [] \<Rightarrow> Returned (s\<lparr>currentTrack := None, lastPlayedTrack := None,
                            currentYoutubeThumbnail := None,
                            currentSoundcloudThumbnail := None, playing := False\<rparr>)
           | next # rest \<Rightarrow>
               if url next = [] then Returned (playNext_catch (s\<lparr>queue := rest\<rparr>))
               else AwaitFetch next (s\<lparr>queue := rest\<rparr>))"
  by (simp add: playNext_def dequeue_def Let_def split: list.splits)


lemma stamps_inv_enqueue:
  "stamps_inv s \<Longrightarrow> startedAt payload = None \<Longrightarrow> stamps_inv (enqueue_request uuid payload s)"
  unfolding stamps_inv_def enqueue_request_def enqueue_def Let_def
  by simp


lemma stamps_inv_dequeue: "stamps_inv s \<Longrightarrow> stamps_inv (dequeue_request s)"
  unfolding stamps_inv_def dequeue_request_def dequeue_def
  by (auto split: list.splits)


lemma list_all_subset: "set ys \<subseteq> set xs \<Longrightarrow> list_all P xs \<Longrightarrow> list_all P ys"
  by (auto simp: list_all_iff)

lemma stamps_inv_remove: "stamps_inv s \<Longrightarrow> stamps_inv (remove_request trackId s)"
  unfolding stamps_inv_def remove_request_def
  using list_all_subset[OF set_remove_track[of trackId "queue s"]]
  by simp


lemma stamps_inv_move: "stamps_inv s \<Longrightarrow> stamps_inv (move_request trackId k s)"
  unfolding stamps_inv_def move_request_def
  by (simp add: list_all_iff set_move)




lemma playNext_result_cases:
  obtains (busy) "playing s" "playNext s = Returned s"
  | (empty) "\<not> playing s" "queue s = []"
      "playNext s = Returned (s\<lparr>currentTrack := None, lastPlayedTrack := None,
                            currentYoutubeThumbnail := None,
                            currentSoundcloudThumbnail := None, playing := False\<rparr>)"
  | (nourl) t rest where "\<not> playing s" "queue s = t # rest" "url t = []"
      "playNext s = Returned (playNext_catch (s\<lparr>queue := rest\<rparr>))"
  | (await) t rest where "\<not> playing s" "queue s = t # rest" "url t \<noteq> []"
      "playNext s = AwaitFetch t (s\<lparr>queue := rest\<rparr>)"
proof (cases "playing s")
  case True
  then show ?thesis using busy by (simp add: playNext_cases)
next
  case np: False
  show ?thesis
  proof (cases "queue s")
    case Nil
    then show ?thesis using np empty by (simp add: playNext_cases)
  next
    case (Cons t rest)
    show ?thesis
    proof (cases "url t = []")
      case True
      then show ?thesis using np Cons nourl[of t rest] by (simp add: playNext_cases)
    next
      case False
      then show ?thesis using np Cons await[of t rest] by (simp add: playNext_cases)
    qed
  qed
qed


lemma stamps_inv_playNext:
  assumes a: "stamps_inv s"
  shows "case playNext s of
        Returned s' \<Rightarrow> stamps_inv s'
      | AwaitFetch t s' \<Rightarrow> stamps_inv (s'\<lparr>fetching := fetching s' @ [(t, b)]\<rparr>)"
proof (cases rule: playNext_result_cases[of s])
  case busy
  then show ?thesis using a by simp
next
  case empty
  then show ?thesis using a by (simp add: stamps_inv_def)
next
  case (nourl t rest)
  then show ?thesis using a by (simp add: stamps_inv_def playNext_catch_def set_timeout_def)
next
  case (await t rest)
  then show ?thesis using a by (simp add: stamps_inv_def)
qed


lemma stamps_inv_playNext_detached: "stamps_inv s \<Longrightarrow> stamps_inv (playNext_detached s)"
  using stamps_inv_playNext[of s False]
  by (cases "playNext s") (simp_all add: playNext_detached_def)

lemma same_core_starting: "same_core (s\<lparr>starting := b\<rparr>) s"
  by (simp add: same_core_def)


lemma stamps_inv_ensurePlaying:
  assumes a: "stamps_inv s"
  shows "stamps_inv (ensurePlaying s)"
proof (cases "playing s \<or> starting s")
  case True
  then show ?thesis using a by (simp add: ensurePlaying_def)
next
  case False
  have b: "stamps_inv (s\<lparr>starting := True\<rparr>)"
    using a by (simp add: same_core_stamps[OF same_core_starting])
  show ?thesis
  proof (cases "playNext (s\<lparr>starting := True\<rparr>)")
    case (Returned s')
    with stamps_inv_playNext[OF b, of True] have "stamps_inv s'" by simp
    then have "stamps_inv (s'\<lparr>starting := False\<rparr>)"
      by (simp add: same_core_stamps[OF same_core_starting])
    then show ?thesis using False Returned by (simp add: ensurePlaying_def)
  next
    case (AwaitFetch t s')
    with stamps_inv_playNext[OF b, of True] show ?thesis
      using False by (simp add: ensurePlaying_def)
  qed
qed

lemma playTrack_resume_core:
  "queue (playTrack_resume t s) = queue s"
  "issued (playTrack_resume t s) = issued s"
  "fetching (playTrack_resume t s) = fetching s"
  "pipelines (playTrack_resume t s) = pipelines s @ [\<lparr>p_track = t, hasStarted = False\<rparr>]"
  "currentTrack (playTrack_resume t s) = Some t"
  "lastPlayedTrack (playTrack_resume t s) = Some t"
  by (cases "source t"; simp add: playTrack_resume_def Let_def set_timeout_def)+

lemma playNext_catch_core:
  "queue (playNext_catch s) = queue s"
  "issued (playNext_catch s) = issued s"
  "fetching (playNext_catch s) = fetching s"
  "pipelines (playNext_catch s) = pipelines s"
  "currentTrack (playNext_catch s) = None"
  "lastPlayedTrack (playNext_catch s) = None"
  by (simp_all add: playNext_catch_def set_timeout_def)






lemma stamps_inv_fetch_settled:
  assumes a: "stamps_inv s"
  shows "stamps_inv (fetch_settled i r s)"
proof (cases "i < length (fetching s)")
  case False
  then show ?thesis using a by (simp add: fetch_settled_def)
next
  case True
  obtain t fe where tf: "fetching s ! i = (t, fe)" by (cases "fetching s ! i")
  define s0 where "s0 = s\<lparr>fetching := splice_out i (fetching s)\<rparr>"
  define s1 where "s1 = playNext_resume r t s0"
  from a have f: "list_all (\<lambda>t. startedAt t = None) (map fst (fetching s))"
    by (simp add: stamps_inv_def)
  have "fst (fetching s ! i) \<in> set (map fst (fetching s))" using True by simp
  with f tf have t: "startedAt t = None" by (auto simp: list_all_iff)
  have "set (map fst (splice_out i (fetching s))) \<subseteq> set (map fst (fetching s))"
    using set_splice_out[of i "fetching s"] by auto
  from list_all_subset[OF this f]
  have a0: "stamps_inv s0" using a by (simp add: s0_def stamps_inv_def)
  have i1: "stamps_inv s1"
  proof (cases r)
    case FetchOk
    show ?thesis unfolding s1_def FetchOk playNext_resume_def using a0 t
      by (simp add: stamps_inv_def playTrack_resume_core stamp_ok_def)
  next
    case FetchFailed
    show ?thesis unfolding s1_def FetchFailed playNext_resume_def using a0
      by (simp add: stamps_inv_def playNext_catch_core)
  qed
  have r: "fetch_settled i r s = (if fe then s1\<lparr>starting := False\<rparr> else s1)"
    using True tf by (simp add: fetch_settled_def s1_def s0_def)
  show ?thesis unfolding r using i1 by (simp add: same_core_stamps[OF same_core_starting])
qed

lemma skipCurrent_core:
  "queue (skipCurrent s) = queue s" "issued (skipCurrent s) = issued s"
  "fetching (skipCurrent s) = fetching s" "pipelines (skipCurrent s) = pipelines s"
  "currentTrack (skipCurrent s) = None" "lastPlayedTrack (skipCurrent s) = lastPlayedTrack s"
  by (cases "stopCurrent s"; simp add: skipCurrent_def Let_def set_timeout_def)+


lemma stamps_inv_skipCurrent: "stamps_inv s \<Longrightarrow> stamps_inv (skipCurrent s)"
  by (simp add: stamps_inv_def skipCurrent_core)

lemma same_core_skipping: "same_core (s\<lparr>skipping := b\<rparr>) s"
  by (simp add: same_core_def)


lemma stamps_inv_skip_done: "stamps_inv s \<Longrightarrow> stamps_inv (skip_done s)"
  unfolding skip_done_def
  by (rule stamps_inv_playNext_detached) (simp add: same_core_stamps[OF same_core_skipping])

lemma same_core_timers: "same_core (s\<lparr>timers := ts\<rparr>) s"
  by (simp add: same_core_def)


lemma stamps_inv_timer_fired:
  assumes a: "stamps_inv s"
  shows "stamps_inv (timer_fired i s)"
proof (cases "i < length (timers s)")
  case False
  then show ?thesis using a by (simp add: timer_fired_def)
next
  case True
  define s1 where "s1 = s\<lparr>timers := splice_out i (timers s)\<rparr>"
  have b: "stamps_inv s1" using a by (simp add: s1_def same_core_stamps[OF same_core_timers])
  show ?thesis
  proof (cases "snd (timers s ! i)")
    case SkipDone
    then show ?thesis using True stamps_inv_skip_done[OF b]
      by (simp add: timer_fired_def s1_def)
  next
    case PlayNextCb
    then show ?thesis using True stamps_inv_playNext_detached[OF b]
      by (simp add: timer_fired_def s1_def)
  next
    case (SafetyTimeout n)
    then show ?thesis using True b same_core_stamps[OF same_core_safety_timeout, of n s1]
      by (simp add: timer_fired_def s1_def)
  qed
qed

lemma map_p_track_started:
  "n < length ps \<Longrightarrow> map p_track (ps[n := (ps ! n)\<lparr>hasStarted := True\<rparr>]) = map p_track ps"
  by (simp add: map_update list_update_same_conv)

lemma on_data_cases:
  "on_data n chunk now s =
     (if n < length (pipelines s) then
        (if \<not> hasStarted (pipelines s ! n) then
           broadcastChunk chunk
             (s\<lparr>currentTrack := Some ((p_track (pipelines s ! n))\<lparr>startedAt := Some now\<rparr>),
                lastPlayedTrack := Some ((p_track (pipelines s ! n))\<lparr>startedAt := Some now\<rparr>),
                pipelines := (pipelines s)[n := (pipelines s ! n)\<lparr>hasStarted := True\<rparr>],
                timers := filter (\<lambda>(_, cb). cb \<noteq> SafetyTimeout n) (timers s)\<rparr>)
         else broadcastChunk chunk s)
      else s)"
  by (simp add: on_data_def Let_def)



lemma stamps_inv_stamp:
  assumes a: "stamps_inv s" and n: "n < length (pipelines s)" and pos: "0 < now"
  shows "stamps_inv (s\<lparr>currentTrack := Some ((p_track (pipelines s ! n))\<lparr>startedAt := Some now\<rparr>),
                lastPlayedTrack := Some ((p_track (pipelines s ! n))\<lparr>startedAt := Some now\<rparr>),
                pipelines := (pipelines s)[n := (pipelines s ! n)\<lparr>hasStarted := True\<rparr>],
                timers := ts\<rparr>)"
  using a pos by (simp add: stamps_inv_def map_p_track_started[OF n] stamp_ok_def)


lemma stamps_inv_on_data: "stamps_inv s \<Longrightarrow> 0 < now \<Longrightarrow> stamps_inv (on_data n chunk now s)"
  unfolding on_data_cases
  by (simp add: same_core_stamps[OF same_core_broadcastChunk] stamps_inv_stamp)


lemma stamps_inv_initial: "stamps_inv initial_engine"
  by (simp add: stamps_inv_def initial_engine_def)


lemma reachable_stamps_inv: "reachable s \<Longrightarrow> stamps_inv s"
proof (induction rule: reachable.induct)
  case r_init
  show ?case by (rule stamps_inv_initial)
next
  case (r_enqueue s uuid payload)
  then show ?case by (simp add: stamps_inv_enqueue)
next
  case (r_dequeue s)
  then show ?case by (simp add: stamps_inv_dequeue)
next
  case (r_remove s trackId)
  then show ?case by (simp add: stamps_inv_remove)
next
  case (r_move s trackId newIndex)
  then show ?case by (simp add: stamps_inv_move)
next
  case (r_ensurePlaying s)
  then show ?case by (simp add: stamps_inv_ensurePlaying)
next
  case (r_playNext s)
  then show ?case by (simp add: stamps_inv_playNext_detached)
next
  case (r_skipCurrent s)
  then show ?case by (simp add: stamps_inv_skipCurrent)
next
  case (r_setPaused s p now)
  then show ?case by (simp add: same_core_stamps[OF same_core_setPaused])
next
  case (r_fetch_settled s i r)
  then show ?case by (simp add: stamps_inv_fetch_settled)
next
  case (r_timer_fired s i)
  then show ?case by (simp add: stamps_inv_timer_fired)
next
  case (r_on_start s pid)
  then show ?case by (simp add: same_core_stamps[OF same_core_on_start])
next
  case (r_on_data s now n chunk)
  then show ?case by (simp add: stamps_inv_on_data)
next
  case (r_on_end s)
  then show ?case by (simp add: same_core_stamps[OF same_core_on_end])
next
  case (r_on_error s)
  then show ?case by (simp add: same_core_stamps[OF same_core_on_error])
next
  case (r_on_output_error s)
  then show ?case by (simp add: same_core_stamps[OF same_core_on_output_error])
next
  case (r_attachClient s n)
  then show ?case by (simp add: same_core_stamps[OF same_core_attachClient])
next
  case (r_client_close s n)
  then show ?case by (simp add: same_core_stamps[OF same_core_client_close])
next
  case (r_silence_tick s)
  then show ?case by (simp add: same_core_stamps[OF same_core_silence_tick])
qed

section \<open>The state snapshot\<close>



lemma getState_current:
  "current (getState s) =
     (case (case currentTrack s of Some t \<Rightarrow> Some t | None \<Rightarrow> lastPlayedTrack s) of
        None \<Rightarrow> None
      | Some t \<Rightarrow>
          (case startedAt t of
             None \<Rightarrow> Some t
           | Some st \<Rightarrow> if st \<noteq> 0 then Some (t\<lparr>startedAt := Some (st + totalPausedDuration s)\<rparr>)
                        else Some t))"
  by (simp add: getState_def Let_def split: option.splits)



text \<open>
  Claim C1. In every reachable state whose current track (or, with no current
  track, whose last-played track) carries a \<open>startedAt\<close> stamp, the stamp is
  positive and \<open>getState\<close> returns that track with \<open>startedAt\<close> replaced by
  the stored stamp plus \<open>totalPausedDuration\<close>. In any state at all, reachable or
  not, the same holds when the stored stamp is not 0, the one value the truthiness
  test of \<open>getState\<close> takes for an absent stamp. Nothing is added for a pause in
  progress: the reported track does not depend on \<open>pausedAt\<close>, and \<open>getState\<close>
  takes no clock reading and returns no new state, so a repeated call in the same
  state, also after an idle silence tick, reports the same value.
\<close>

theorem getState_reports_shifted_start:
  "(reachable s
      \<and> (case currentTrack s of Some t \<Rightarrow> Some t | None \<Rightarrow> lastPlayedTrack s) = Some t
      \<and> startedAt t = Some st \<longrightarrow>
        0 < st
        \<and> current (getState s) = Some (t\<lparr>startedAt := Some (st + totalPausedDuration s)\<rparr>))
   \<and> ((case currentTrack s of Some t \<Rightarrow> Some t | None \<Rightarrow> lastPlayedTrack s) = Some t
      \<and> startedAt t = Some st \<and> st \<noteq> 0 \<longrightarrow>
        current (getState s) = Some (t\<lparr>startedAt := Some (st + totalPausedDuration s)\<rparr>))
   \<and> current (getState (s\<lparr>pausedAt := pa\<rparr>)) = current (getState s)
   \<and> current (getState (silence_tick s)) = current (getState s)"
proof (intro conjI impI)
  assume h: "(case currentTrack s of Some t \<Rightarrow> Some t | None \<Rightarrow> lastPlayedTrack s) = Some t
      \<and> startedAt t = Some st \<and> st \<noteq> 0"
  then show "current (getState s) = Some (t\<lparr>startedAt := Some (st + totalPausedDuration s)\<rparr>)"
    by (simp add: getState_current)
next
  assume h: "reachable s
      \<and> (case currentTrack s of Some t \<Rightarrow> Some t | None \<Rightarrow> lastPlayedTrack s) = Some t
      \<and> startedAt t = Some st"
  then have r: "reachable s"
    and t: "(case currentTrack s of Some t \<Rightarrow> Some t | None \<Rightarrow> lastPlayedTrack s) = Some t"
    and st: "startedAt t = Some st"
    by simp_all
  from reachable_stamps_inv[OF r] have
    c: "case currentTrack s of None \<Rightarrow> True | Some t \<Rightarrow> stamp_ok t"
    and l: "case lastPlayedTrack s of None \<Rightarrow> True | Some t \<Rightarrow> stamp_ok t"
    by (simp_all add: stamps_inv_def)
  have "stamp_ok t"
  proof (cases "currentTrack s")
    case None
    with t l show ?thesis by simp
  next
    case (Some u)
    with t c show ?thesis by simp
  qed
  with st show pos: "0 < st" by (simp add: stamp_ok_def)
  then have "st \<noteq> 0" by simp
  then show "current (getState s) = Some (t\<lparr>startedAt := Some (st + totalPausedDuration s)\<rparr>)"
    using t st by (simp add: getState_current)
next
  show "current (getState (s\<lparr>pausedAt := pa\<rparr>)) = current (getState s)"
    by (simp add: getState_current split: option.splits)
  have k: "currentTrack (silence_tick s) = currentTrack s"
    "lastPlayedTrack (silence_tick s) = lastPlayedTrack s"
    "totalPausedDuration (silence_tick s) = totalPausedDuration s"
    by (simp_all add: silence_tick_def broadcastChunk_def Let_def)
  show "current (getState (silence_tick s)) = current (getState s)"
    unfolding getState_current k by (rule refl)
qed

lemma demo_playing_eval:
  "demo_playing = initial_engine\<lparr>
     queue := [(demo_track ''y'')\<lparr>id_t := ''b''\<rparr>],
     taps := [\<lparr>tap_no = 1, destroyed = False, written = [SILENCE_FRAME, [1, 2, 3]]\<rparr>],
     playing := True, stopCurrent := Some 0, currentFfmpegPid := Some 4711,
     currentTrack := Some ((demo_track ''x'')\<lparr>id_t := ''a'', startedAt := Some 1000\<rparr>),
     lastPlayedTrack := Some ((demo_track ''x'')\<lparr>id_t := ''a'', startedAt := Some 1000\<rparr>),
     pipelines := [\<lparr>p_track = (demo_track ''x'')\<lparr>id_t := ''a''\<rparr>, hasStarted = True\<rparr>],
     issued := [''a'', ''b'']\<rparr>"
  by (simp add: demo_playing_def on_data_def on_start_def fetch_settled_def
      ensurePlaying_def enqueue_request_def attachClient_def initial_engine_def
      playNext_def dequeue_def enqueue_def demo_track_def playNext_resume_def
      playTrack_resume_def set_timeout_def splice_out_def broadcastChunk_def
      write_taps_def tap_write_def Let_def)

lemma demo_playing_reachable: "reachable demo_playing"
  unfolding demo_playing_def
  by (intro reachable.intros) (simp_all add: initial_engine_def attachClient_def
      enqueue_request_def enqueue_def demo_track_def)

lemma demo_paused_again_reachable: "reachable demo_paused_again"
  unfolding demo_paused_again_def demo_resumed_def
  by (intro reachable.intros demo_playing_reachable)

lemma demo_paused_again_eval:
  "paused demo_paused_again" "pausedAt demo_paused_again = Some 12000"
  "totalPausedDuration demo_paused_again = 5000"
  "currentTrack demo_paused_again
     = Some ((demo_track ''x'')\<lparr>id_t := ''a'', startedAt := Some 1000\<rparr>)"
  by (simp_all add: demo_paused_again_def demo_resumed_def demo_playing_eval setPaused_def
      flushWithSilence_def signal_encoder_def process_kill_def initial_engine_def)


text \<open>Started at 1000, paused from 4000 to 9000 and again since 12000: the
  reported start stays 6000.\<close>

theorem getState_reports_shifted_start_witness:
  "reachable demo_paused_again
   \<and> paused demo_paused_again
   \<and> currentTrack demo_paused_again
       = Some ((demo_track ''x'')\<lparr>id_t := ''a'', startedAt := Some 1000\<rparr>)
   \<and> totalPausedDuration demo_paused_again = 5000
   \<and> current (getState demo_paused_again)
       = Some ((demo_track ''x'')\<lparr>id_t := ''a'', startedAt := Some 6000\<rparr>)
   \<and> current (getState (silence_tick demo_paused_again))
       = Some ((demo_track ''x'')\<lparr>id_t := ''a'', startedAt := Some 6000\<rparr>)"
proof -
  let ?t = "(demo_track ''x'')\<lparr>id_t := ''a'', startedAt := Some 1000\<rparr>"
  have h: "(case currentTrack demo_paused_again of Some t \<Rightarrow> Some t
            | None \<Rightarrow> lastPlayedTrack demo_paused_again) = Some ?t"
    by (simp add: demo_paused_again_eval)
  have st: "startedAt ?t = Some 1000" by simp
  have hyp: "reachable demo_paused_again
      \<and> (case currentTrack demo_paused_again of Some t \<Rightarrow> Some t
          | None \<Rightarrow> lastPlayedTrack demo_paused_again) = Some ?t
      \<and> startedAt ?t = Some 1000"
    using demo_paused_again_reachable h st by simp
  note g = getState_reports_shifted_start[where s=demo_paused_again and t="?t" and st=1000
      and pa=None]
  from g[THEN conjunct1, THEN mp, OF hyp]
  have a: "current (getState demo_paused_again)
      = Some (?t\<lparr>startedAt := Some (1000 + totalPausedDuration demo_paused_again)\<rparr>)"
    by (rule conjunct2)
  from g have b: "current (getState (silence_tick demo_paused_again))
      = current (getState demo_paused_again)"
    by blast
  show ?thesis
    using demo_paused_again_reachable demo_paused_again_eval a b by simp
qed

section \<open>Starting and skipping\<close>

lemma splice_out_last: "splice_out (length xs) (xs @ [y]) = xs"
  by (simp add: splice_out_def)

lemma playNext_resume_starting:
  "starting (playNext_resume r t s) = starting s"
  "fetching (playNext_resume r t s) = fetching s"
  by (cases r; cases "source t";
      simp add: playNext_resume_def playTrack_resume_def playNext_catch_def set_timeout_def Let_def)+

lemma playNext_resume_ok:
  "playing (playNext_resume FetchOk t s)" "currentTrack (playNext_resume FetchOk t s) = Some t"
  "lastPlayedTrack (playNext_resume FetchOk t s) = Some t"
  "queue (playNext_resume FetchOk t s) = queue s"
  by (cases "source t";
      simp add: playNext_resume_def playTrack_resume_def set_timeout_def Let_def)+

lemma playNext_resume_failed:
  "\<not> playing (playNext_resume FetchFailed t s)"
  "currentTrack (playNext_resume FetchFailed t s) = None"
  "lastPlayedTrack (playNext_resume FetchFailed t s) = None"
  "queue (playNext_resume FetchFailed t s) = queue s"
  "timers (playNext_resume FetchFailed t s) = timers s @ [(1000, PlayNextCb)]"
  "fetching (playNext_resume FetchFailed t s) = fetching s"
  "pipelines (playNext_resume FetchFailed t s) = pipelines s"
  by (simp_all add: playNext_resume_def playNext_catch_def set_timeout_def)

lemma fetch_settled_last:
  "fetch_settled (length fs) r (s\<lparr>fetching := fs @ [(t, fe)]\<rparr>) =
     (if fe then (playNext_resume r t (s\<lparr>fetching := fs\<rparr>))\<lparr>starting := False\<rparr>
      else playNext_resume r t (s\<lparr>fetching := fs\<rparr>))"
  by (simp add: fetch_settled_def splice_out_last)

text \<open>
  Claim C7. With \<open>playing\<close> or \<open>starting\<close> set, \<open>ensurePlaying\<close> returns the
  state unchanged: nothing is dequeued and no field changes. With both flags
  clear it runs \<open>playNext\<close> with \<open>starting\<close> set: on an empty queue, or on a
  head track without URL, the call completes at once and \<open>starting\<close> is clear
  again; otherwise the head is dequeued, the call is suspended with \<open>starting\<close>
  still set, a second \<open>ensurePlaying\<close> during this startup changes nothing, and
  when the fetch settles, either way, \<open>starting\<close> is cleared; after a successful
  fetch \<open>playing\<close> is set and \<open>ensurePlaying\<close> is again without effect.
\<close>

theorem ensurePlaying_guarded:
  "(playing s \<or> starting s \<longrightarrow> ensurePlaying s = s)
   \<and> (\<not> playing s \<and> \<not> starting s \<longrightarrow>
        (case queue s of
           [] \<Rightarrow>
             ensurePlaying s = s\<lparr>starting := True, currentTrack := None, lastPlayedTrack := None,
                                 currentYoutubeThumbnail := None,
                                 currentSoundcloudThumbnail := None, playing := False,
                                 starting := False\<rparr>
         | t # rest \<Rightarrow>
             if url t = [] then
               ensurePlaying s = (playNext_catch (s\<lparr>starting := True, queue := rest\<rparr>))\<lparr>starting := False\<rparr>
             else
               ensurePlaying s = s\<lparr>starting := True, queue := rest,
                                    fetching := fetching s @ [(t, True)]\<rparr>
               \<and> ensurePlaying (ensurePlaying s) = ensurePlaying s
               \<and> (\<forall>r. fetch_settled (length (fetching s)) r (ensurePlaying s)
                         = (playNext_resume r t (s\<lparr>starting := True, queue := rest\<rparr>))\<lparr>starting := False\<rparr>
                       \<and> \<not> starting (fetch_settled (length (fetching s)) r (ensurePlaying s)))
               \<and> playing (fetch_settled (length (fetching s)) FetchOk (ensurePlaying s))
               \<and> ensurePlaying (fetch_settled (length (fetching s)) FetchOk (ensurePlaying s))
                   = fetch_settled (length (fetching s)) FetchOk (ensurePlaying s)))"
proof (intro conjI impI)
  assume "playing s \<or> starting s"
  then show "ensurePlaying s = s" by (auto simp: ensurePlaying_def)
next
  assume idle: "\<not> playing s \<and> \<not> starting s"
  show "case queue s of
           [] \<Rightarrow>
             ensurePlaying s = s\<lparr>starting := True, currentTrack := None, lastPlayedTrack := None,
                                 currentYoutubeThumbnail := None,
                                 currentSoundcloudThumbnail := None, playing := False,
                                 starting := False\<rparr>
         | t # rest \<Rightarrow>
             if url t = [] then
               ensurePlaying s = (playNext_catch (s\<lparr>starting := True, queue := rest\<rparr>))\<lparr>starting := False\<rparr>
             else
               ensurePlaying s = s\<lparr>starting := True, queue := rest,
                                    fetching := fetching s @ [(t, True)]\<rparr>
               \<and> ensurePlaying (ensurePlaying s) = ensurePlaying s
               \<and> (\<forall>r. fetch_settled (length (fetching s)) r (ensurePlaying s)
                         = (playNext_resume r t (s\<lparr>starting := True, queue := rest\<rparr>))\<lparr>starting := False\<rparr>
                       \<and> \<not> starting (fetch_settled (length (fetching s)) r (ensurePlaying s)))
               \<and> playing (fetch_settled (length (fetching s)) FetchOk (ensurePlaying s))
               \<and> ensurePlaying (fetch_settled (length (fetching s)) FetchOk (ensurePlaying s))
                   = fetch_settled (length (fetching s)) FetchOk (ensurePlaying s)"
  proof (cases "queue s")
    case Nil
    then show ?thesis using idle by (simp add: ensurePlaying_def playNext_cases)
  next
    case (Cons t rest)
    show ?thesis
    proof (cases "url t = []")
      case True
      then show ?thesis using idle Cons by (simp add: ensurePlaying_def playNext_cases)
    next
      case False
      define s1 where "s1 = s\<lparr>starting := True, queue := rest\<rparr>"
      have e: "ensurePlaying s = s1\<lparr>fetching := fetching s @ [(t, True)]\<rparr>"
        using idle Cons False by (simp add: ensurePlaying_def playNext_cases s1_def)
      have e': "ensurePlaying s = s\<lparr>starting := True, queue := rest,
                                    fetching := fetching s @ [(t, True)]\<rparr>"
        unfolding e s1_def by simp
      have i: "ensurePlaying (ensurePlaying s) = ensurePlaying s"
        unfolding e' by (simp add: ensurePlaying_def)
      have f0: "s1\<lparr>fetching := fetching s\<rparr> = s1" by (simp add: s1_def)
      have f: "fetch_settled (length (fetching s)) r (ensurePlaying s)
                 = (playNext_resume r t s1)\<lparr>starting := False\<rparr>" for r
        unfolding e by (simp add: fetch_settled_last f0)
      have g: "\<not> starting (fetch_settled (length (fetching s)) r (ensurePlaying s))" for r
        unfolding f by simp
      have p: "playing (fetch_settled (length (fetching s)) FetchOk (ensurePlaying s))"
        unfolding f by (simp add: playNext_resume_ok)
      have j: "ensurePlaying (fetch_settled (length (fetching s)) FetchOk (ensurePlaying s))
                   = fetch_settled (length (fetching s)) FetchOk (ensurePlaying s)"
        using p by (simp add: ensurePlaying_def)
      show ?thesis using Cons False e' i f g p j unfolding s1_def by simp
    qed
  qed
qed

lemma demo_idle_queued_eval:
  "demo_idle_queued = initial_engine\<lparr>
     queue := [(demo_track ''x'')\<lparr>id_t := ''a''\<rparr>],
     taps := [\<lparr>tap_no = 1, destroyed = False, written = [SILENCE_FRAME]\<rparr>],
     issued := [''a'']\<rparr>"
  by (simp add: demo_idle_queued_def enqueue_request_def attachClient_def initial_engine_def
      enqueue_def Let_def)

lemma demo_idle_queued_reachable: "reachable demo_idle_queued"
  unfolding demo_idle_queued_def
  by (intro reachable.intros) (simp_all add: initial_engine_def attachClient_def demo_track_def)

text \<open>\<open>ensurePlaying\<close> while track \<open>a\<close> plays, and on the idle engine with
  track \<open>a\<close> queued.\<close>

theorem ensurePlaying_guarded_witness:
  "playing demo_playing
   \<and> ensurePlaying demo_playing = demo_playing
   \<and> \<not> playing demo_idle_queued \<and> \<not> starting demo_idle_queued
   \<and> starting (ensurePlaying demo_idle_queued)
   \<and> queue (ensurePlaying demo_idle_queued) = []
   \<and> fetching (ensurePlaying demo_idle_queued) = [((demo_track ''x'')\<lparr>id_t := ''a''\<rparr>, True)]
   \<and> ensurePlaying (ensurePlaying demo_idle_queued) = ensurePlaying demo_idle_queued
   \<and> \<not> starting (fetch_settled 0 FetchOk (ensurePlaying demo_idle_queued))
   \<and> \<not> starting (fetch_settled 0 FetchFailed (ensurePlaying demo_idle_queued))
   \<and> playing (fetch_settled 0 FetchOk (ensurePlaying demo_idle_queued))"
proof -
  have p: "playing demo_playing" by (simp add: demo_playing_eval)
  have i: "\<not> playing demo_idle_queued \<and> \<not> starting demo_idle_queued"
    by (simp add: demo_idle_queued_eval initial_engine_def)
  have q: "queue demo_idle_queued = [(demo_track ''x'')\<lparr>id_t := ''a''\<rparr>]"
    "fetching demo_idle_queued = []"
    by (simp_all add: demo_idle_queued_eval initial_engine_def)
  have u: "url ((demo_track ''x'')\<lparr>id_t := ''a''\<rparr>) \<noteq> []" by (simp add: demo_track_def)
  from ensurePlaying_guarded[of demo_playing] p
  have a: "ensurePlaying demo_playing = demo_playing" by blast
  note g = ensurePlaying_guarded[of demo_idle_queued, THEN conjunct2, THEN mp, OF i,
      unfolded q list.case if_not_P[OF u] list.size(3) append_Nil]
  from g have b: "ensurePlaying demo_idle_queued
      = demo_idle_queued\<lparr>starting := True, queue := [],
           fetching := [((demo_track ''x'')\<lparr>id_t := ''a''\<rparr>, True)]\<rparr>"
    "ensurePlaying (ensurePlaying demo_idle_queued) = ensurePlaying demo_idle_queued"
    "\<not> starting (fetch_settled 0 FetchOk (ensurePlaying demo_idle_queued))"
    "\<not> starting (fetch_settled 0 FetchFailed (ensurePlaying demo_idle_queued))"
    "playing (fetch_settled 0 FetchOk (ensurePlaying demo_idle_queued))"
    by blast+
  have c: "starting (ensurePlaying demo_idle_queued)" "queue (ensurePlaying demo_idle_queued) = []"
    "fetching (ensurePlaying demo_idle_queued) = [((demo_track ''x'')\<lparr>id_t := ''a''\<rparr>, True)]"
    unfolding b(1) by simp_all
  show ?thesis using p a i b(2-5) c by simp
qed

lemma skipCurrent_fields:
  "skipping (skipCurrent s)" "stopCurrent (skipCurrent s) = None"
  "currentFfmpegPid (skipCurrent s) = None" "\<not> playing (skipCurrent s)"
  "timers (skipCurrent s) = timers s @ [(150, SkipDone)]"
  "stopped (skipCurrent s) = stopped s @ (case stopCurrent s of None \<Rightarrow> [] | Some n \<Rightarrow> [n])"
  by (cases "stopCurrent s"; simp add: skipCurrent_def Let_def set_timeout_def)+

lemma timer_fired_last:
  "timer_fired (length ts) (s\<lparr>timers := ts @ [(ms, SkipDone)]\<rparr>) = skip_done (s\<lparr>timers := ts\<rparr>)"
  by (simp add: timer_fired_def splice_out_last)

lemma skip_done_await:
  assumes "\<not> playing u" "queue u = t # rest" "url t \<noteq> []"
  shows "skip_done u = u\<lparr>skipping := False, queue := rest, fetching := fetching u @ [(t, False)]\<rparr>"
  using assms by (simp add: skip_done_def playNext_detached_def playNext_cases)

lemma skip_done_nourl:
  assumes "\<not> playing u" "queue u = t # rest" "url t = []"
  shows "skip_done u = playNext_catch (u\<lparr>skipping := False, queue := rest\<rparr>)"
  using assms by (simp add: skip_done_def playNext_detached_def playNext_cases)

text \<open>
  Claim C10, as amended. \<open>skipCurrent\<close> in an idle state (no current track, not
  playing) is not a no-op: it sets \<open>skipping\<close>, leaves the encoder handles
  cleared and registers the 150 ms callback, whose firing is \<open>skip_done\<close>. When
  that callback runs in a state \<open>u\<close> that is not playing and whose queue has the
  head \<open>t\<close> with a URL, it clears \<open>skipping\<close>, dequeues \<open>t\<close> and suspends in
  \<open>createAudioStream\<close> with the current track unchanged; \<open>t\<close> becomes the
  current track, and \<open>playing\<close> is set, when that fetch resolves. When the fetch
  fails, \<open>t\<close> is dropped: current and last-played track are null, no fetch
  and no pipeline is left of it, nothing plays, and \<open>playNext\<close> is rescheduled
  after 1000 ms. When the head \<open>t\<close> has no URL, the
  callback dequeues and drops it at once: no fetch is pending, no pipeline is
  built, current and last-played track are null, nothing plays, and \<open>playNext\<close>
  is rescheduled after 1000 ms.
\<close>

theorem skipCurrent_from_idle:
  "(currentTrack s = None \<and> \<not> playing s \<longrightarrow>
      skipCurrent s \<noteq> s
      \<and> skipping (skipCurrent s) \<and> stopCurrent (skipCurrent s) = None
      \<and> currentFfmpegPid (skipCurrent s) = None
      \<and> \<not> playing (skipCurrent s) \<and> currentTrack (skipCurrent s) = None
      \<and> queue (skipCurrent s) = queue s
      \<and> timers (skipCurrent s) = timers s @ [(150, SkipDone)]
      \<and> timer_fired (length (timers s)) (skipCurrent s)
          = skip_done ((skipCurrent s)\<lparr>timers := timers s\<rparr>))
   \<and> (\<not> playing u \<and> queue u = t # rest \<and> url t \<noteq> [] \<longrightarrow>
      \<not> skipping (skip_done u) \<and> queue (skip_done u) = rest
      \<and> fetching (skip_done u) = fetching u @ [(t, False)]
      \<and> currentTrack (skip_done u) = currentTrack u
      \<and> currentTrack (fetch_settled (length (fetching u)) FetchOk (skip_done u)) = Some t
      \<and> playing (fetch_settled (length (fetching u)) FetchOk (skip_done u))
      \<and> queue (fetch_settled (length (fetching u)) FetchOk (skip_done u)) = rest
      \<and> currentTrack (fetch_settled (length (fetching u)) FetchFailed (skip_done u)) = None
      \<and> \<not> playing (fetch_settled (length (fetching u)) FetchFailed (skip_done u))
      \<and> queue (fetch_settled (length (fetching u)) FetchFailed (skip_done u)) = rest
      \<and> timers (fetch_settled (length (fetching u)) FetchFailed (skip_done u))
          = timers u @ [(1000, PlayNextCb)]
      \<and> lastPlayedTrack (fetch_settled (length (fetching u)) FetchFailed (skip_done u)) = None
      \<and> fetching (fetch_settled (length (fetching u)) FetchFailed (skip_done u)) = fetching u
      \<and> pipelines (fetch_settled (length (fetching u)) FetchFailed (skip_done u)) = pipelines u)
   \<and> (\<not> playing u \<and> queue u = t # rest \<and> url t = [] \<longrightarrow>
      skip_done u = playNext_catch (u\<lparr>skipping := False, queue := rest\<rparr>)
      \<and> \<not> skipping (skip_done u) \<and> queue (skip_done u) = rest
      \<and> fetching (skip_done u) = fetching u \<and> pipelines (skip_done u) = pipelines u
      \<and> currentTrack (skip_done u) = None \<and> lastPlayedTrack (skip_done u) = None
      \<and> \<not> playing (skip_done u)
      \<and> timers (skip_done u) = timers u @ [(1000, PlayNextCb)])"
proof (intro conjI impI)
  assume idle: "currentTrack s = None \<and> \<not> playing s"
  have t: "timers (skipCurrent s) = timers s @ [(150, SkipDone)]" by (rule skipCurrent_fields)
  then have "timers (skipCurrent s) \<noteq> timers s" by simp
  then show "skipCurrent s \<noteq> s" by (metis)
  show "skipping (skipCurrent s)" "stopCurrent (skipCurrent s) = None"
    "currentFfmpegPid (skipCurrent s) = None" "\<not> playing (skipCurrent s)"
    "timers (skipCurrent s) = timers s @ [(150, SkipDone)]"
    by (rule skipCurrent_fields)+
  show "currentTrack (skipCurrent s) = None" "queue (skipCurrent s) = queue s"
    by (simp_all add: skipCurrent_core)
  have "skipCurrent s = (skipCurrent s)\<lparr>timers := timers s @ [(150, SkipDone)]\<rparr>"
    using t by simp
  then have "timer_fired (length (timers s)) (skipCurrent s)
      = timer_fired (length (timers s)) ((skipCurrent s)\<lparr>timers := timers s @ [(150, SkipDone)]\<rparr>)"
    by simp
  then show "timer_fired (length (timers s)) (skipCurrent s)
          = skip_done ((skipCurrent s)\<lparr>timers := timers s\<rparr>)"
    by (simp only: timer_fired_last)
next
  assume a: "\<not> playing u \<and> queue u = t # rest \<and> url t \<noteq> []"
  define u0 where "u0 = u\<lparr>skipping := False, queue := rest\<rparr>"
  have e: "skip_done u = u0\<lparr>fetching := fetching u @ [(t, False)]\<rparr>"
    using a by (simp add: skip_done_await u0_def)
  have f0: "u0\<lparr>fetching := fetching u\<rparr> = u0" by (simp add: u0_def)
  have f: "fetch_settled (length (fetching u)) r (skip_done u) = playNext_resume r t u0" for r
    unfolding e by (simp add: fetch_settled_last f0)
  show "\<not> skipping (skip_done u)" "queue (skip_done u) = rest"
    "fetching (skip_done u) = fetching u @ [(t, False)]"
    "currentTrack (skip_done u) = currentTrack u"
    unfolding e u0_def by simp_all
  show "currentTrack (fetch_settled (length (fetching u)) FetchOk (skip_done u)) = Some t"
    "playing (fetch_settled (length (fetching u)) FetchOk (skip_done u))"
    "queue (fetch_settled (length (fetching u)) FetchOk (skip_done u)) = rest"
    unfolding f by (simp_all add: playNext_resume_ok u0_def)
  show "currentTrack (fetch_settled (length (fetching u)) FetchFailed (skip_done u)) = None"
    "\<not> playing (fetch_settled (length (fetching u)) FetchFailed (skip_done u))"
    "queue (fetch_settled (length (fetching u)) FetchFailed (skip_done u)) = rest"
    "timers (fetch_settled (length (fetching u)) FetchFailed (skip_done u))
          = timers u @ [(1000, PlayNextCb)]"
    "lastPlayedTrack (fetch_settled (length (fetching u)) FetchFailed (skip_done u)) = None"
    "fetching (fetch_settled (length (fetching u)) FetchFailed (skip_done u)) = fetching u"
    "pipelines (fetch_settled (length (fetching u)) FetchFailed (skip_done u)) = pipelines u"
    unfolding f by (simp_all add: playNext_resume_failed u0_def)
next
  assume a: "\<not> playing u \<and> queue u = t # rest \<and> url t = []"
  have e: "skip_done u = playNext_catch (u\<lparr>skipping := False, queue := rest\<rparr>)"
    using a by (simp add: skip_done_nourl)
  show "skip_done u = playNext_catch (u\<lparr>skipping := False, queue := rest\<rparr>)" by (rule e)
  show "\<not> skipping (skip_done u)" "queue (skip_done u) = rest"
    "fetching (skip_done u) = fetching u" "pipelines (skip_done u) = pipelines u"
    "currentTrack (skip_done u) = None" "lastPlayedTrack (skip_done u) = None"
    "\<not> playing (skip_done u)"
    "timers (skip_done u) = timers u @ [(1000, PlayNextCb)]"
    unfolding e by (simp_all add: playNext_catch_def set_timeout_def)
qed

text \<open>
  Claim C10 as stated fails: the queue holds track \<open>a\<close> when the deferred
  \<open>playNext\<close> runs, the head is dequeued, its fetch fails, and the track never
  becomes the current track: afterwards it is neither current nor last played nor
  queued nor pending.
\<close>

theorem skipCurrent_from_idle_counterexample:
  "currentTrack demo_idle_queued = None \<and> \<not> playing demo_idle_queued
   \<and> queue (skipCurrent demo_idle_queued) = [(demo_track ''x'')\<lparr>id_t := ''a''\<rparr>]
   \<and> queue (timer_fired 0 (skipCurrent demo_idle_queued)) = []
   \<and> currentTrack (timer_fired 0 (skipCurrent demo_idle_queued)) = None
   \<and> currentTrack (fetch_settled 0 FetchFailed (timer_fired 0 (skipCurrent demo_idle_queued))) = None
   \<and> lastPlayedTrack (fetch_settled 0 FetchFailed (timer_fired 0 (skipCurrent demo_idle_queued))) = None
   \<and> queue (fetch_settled 0 FetchFailed (timer_fired 0 (skipCurrent demo_idle_queued))) = []
   \<and> fetching (fetch_settled 0 FetchFailed (timer_fired 0 (skipCurrent demo_idle_queued))) = []
   \<and> pipelines (fetch_settled 0 FetchFailed (timer_fired 0 (skipCurrent demo_idle_queued))) = []"
  by (simp add: demo_idle_queued_eval initial_engine_def skipCurrent_def set_timeout_def
      timer_fired_def skip_done_def playNext_detached_def playNext_def dequeue_def
      fetch_settled_def playNext_resume_def playNext_catch_def splice_out_def demo_track_def
      Let_def)


text \<open>Skip on the idle engine with track \<open>a\<close> queued, where the fetch succeeds,
  and on the idle engine whose queued track has no URL.\<close>

theorem skipCurrent_from_idle_witness:
  "currentTrack demo_idle_queued = None \<and> \<not> playing demo_idle_queued
   \<and> skipping (skipCurrent demo_idle_queued)
   \<and> timers (skipCurrent demo_idle_queued) = [(150, SkipDone)]
   \<and> queue (timer_fired 0 (skipCurrent demo_idle_queued)) = []
   \<and> fetching (timer_fired 0 (skipCurrent demo_idle_queued))
       = [((demo_track ''x'')\<lparr>id_t := ''a''\<rparr>, False)]
   \<and> currentTrack (fetch_settled 0 FetchOk (timer_fired 0 (skipCurrent demo_idle_queued)))
       = Some ((demo_track ''x'')\<lparr>id_t := ''a''\<rparr>)
   \<and> playing (fetch_settled 0 FetchOk (timer_fired 0 (skipCurrent demo_idle_queued)))
   \<and> currentTrack demo_idle_nourl = None \<and> \<not> playing demo_idle_nourl
   \<and> queue (skipCurrent demo_idle_nourl) = [(demo_track ''z'')\<lparr>url := [], id_t := ''n''\<rparr>]
   \<and> queue (timer_fired 0 (skipCurrent demo_idle_nourl)) = []
   \<and> fetching (timer_fired 0 (skipCurrent demo_idle_nourl)) = []
   \<and> currentTrack (timer_fired 0 (skipCurrent demo_idle_nourl)) = None
   \<and> timers (timer_fired 0 (skipCurrent demo_idle_nourl)) = [(1000, PlayNextCb)]"
proof -
  let ?a = "(demo_track ''x'')\<lparr>id_t := ''a''\<rparr>"
  let ?n = "(demo_track ''z'')\<lparr>url := [], id_t := ''n''\<rparr>"
  define u where "u = (skipCurrent demo_idle_queued)\<lparr>timers := timers demo_idle_queued\<rparr>"
  have i: "currentTrack demo_idle_queued = None \<and> \<not> playing demo_idle_queued"
    by (simp add: demo_idle_queued_eval initial_engine_def)
  have tm: "timers demo_idle_queued = []" "fetching demo_idle_queued = []"
    "queue demo_idle_queued = [?a]"
    by (simp_all add: demo_idle_queued_eval initial_engine_def)
  note g = skipCurrent_from_idle[where s=demo_idle_queued, THEN conjunct1, THEN mp, OF i,
      unfolded tm list.size(3) append_Nil, folded u_def[unfolded tm]]
  from g have a: "skipping (skipCurrent demo_idle_queued)"
    "timers (skipCurrent demo_idle_queued) = [(150, SkipDone)]"
    "\<not> playing (skipCurrent demo_idle_queued)"
    "queue (skipCurrent demo_idle_queued) = [?a]"
    "timer_fired 0 (skipCurrent demo_idle_queued) = skip_done u"
    by blast+
  have h: "\<not> playing u \<and> queue u = ?a # [] \<and> url ?a \<noteq> []"
    using a(3,4) by (simp add: u_def demo_track_def)
  have fu: "fetching u = []"
    by (simp add: u_def skipCurrent_core tm)
  note k = skipCurrent_from_idle[where u=u and t="?a" and rest="[]", THEN conjunct2,
      THEN conjunct1, THEN mp, OF h, unfolded fu list.size(3) append_Nil, folded a(5)]
  from k have b: "queue (timer_fired 0 (skipCurrent demo_idle_queued)) = []"
    "fetching (timer_fired 0 (skipCurrent demo_idle_queued)) = [(?a, False)]"
    "currentTrack (fetch_settled 0 FetchOk (timer_fired 0 (skipCurrent demo_idle_queued))) = Some ?a"
    "playing (fetch_settled 0 FetchOk (timer_fired 0 (skipCurrent demo_idle_queued)))"
    by blast+
  define v where "v = (skipCurrent demo_idle_nourl)\<lparr>timers := timers demo_idle_nourl\<rparr>"
  have ev: "demo_idle_nourl = initial_engine\<lparr>
     queue := [?n],
     taps := [\<lparr>tap_no = 1, destroyed = False, written = [SILENCE_FRAME]\<rparr>],
     issued := [''n'']\<rparr>"
    by (simp add: demo_idle_nourl_def enqueue_request_def attachClient_def initial_engine_def
        enqueue_def Let_def)
  have j: "currentTrack demo_idle_nourl = None \<and> \<not> playing demo_idle_nourl"
    by (simp add: ev initial_engine_def)
  have tn: "timers demo_idle_nourl = []" "fetching demo_idle_nourl = []"
    "queue demo_idle_nourl = [?n]"
    by (simp_all add: ev initial_engine_def)
  note gn = skipCurrent_from_idle[where s=demo_idle_nourl, THEN conjunct1, THEN mp, OF j,
      unfolded tn list.size(3) append_Nil, folded v_def[unfolded tn]]
  from gn have c: "\<not> playing (skipCurrent demo_idle_nourl)"
    "queue (skipCurrent demo_idle_nourl) = [?n]"
    "timer_fired 0 (skipCurrent demo_idle_nourl) = skip_done v"
    by blast+
  have hn: "\<not> playing v \<and> queue v = ?n # [] \<and> url ?n = []"
    using c(1,2) by (simp add: v_def)
  have fv: "fetching v = []" "timers v = []"
    by (simp_all add: v_def skipCurrent_core tn)
  note kn = skipCurrent_from_idle[where u=v and t="?n" and rest="[]", THEN conjunct2,
      THEN conjunct2, THEN mp, OF hn, unfolded fv append_Nil, folded c(3)]
  from kn have d: "queue (timer_fired 0 (skipCurrent demo_idle_nourl)) = []"
    "fetching (timer_fired 0 (skipCurrent demo_idle_nourl)) = []"
    "currentTrack (timer_fired 0 (skipCurrent demo_idle_nourl)) = None"
    "timers (timer_fired 0 (skipCurrent demo_idle_nourl)) = [(1000, PlayNextCb)]"
    by blast+
  show ?thesis using i a(1,2) b j c(2) d by simp
qed

section \<open>The generic HTTP fetch\<close>












section \<open>URL normalisation\<close>










end
